theory Spec2Isabelle
  imports Main
begin

section \<open>Data model of the logger (package go\_logger)\<close>

text \<open>
  Go strings are byte sequences, so a string is a \<open>char list\<close>. Go's \<open>int\<close> and
  \<open>int64\<close> values are only compared and printed here, never computed with, so they are
  \<open>int\<close>. An \<open>error\<close> value is represented by the text its \<open>Error()\<close> method returns;
  \<open>nil\<close> is \<open>None\<close>.
\<close>

type_synonym error = string

definition LoggerLevelEmergency :: int where "LoggerLevelEmergency = 0"
definition LoggerLevelAlert :: int where "LoggerLevelAlert = 1"
definition LoggerLevelCritical :: int where "LoggerLevelCritical = 2"
definition LoggerLevelError :: int where "LoggerLevelError = 3"
definition LoggerLevelWarning :: int where "LoggerLevelWarning = 4"
definition LoggerLevelNotice :: int where "LoggerLevelNotice = 5"
definition LoggerLevelInfo :: int where "LoggerLevelInfo = 6"
definition LoggerLevelDebug :: int where "LoggerLevelDebug = 7"

text \<open>
  \<open>levelStringMapping\<close> is a Go map from \<open>int\<close> to \<open>string\<close>; reading a key that is
  not in the map gives the zero value, the empty string.
\<close>

definition levelStringMapping :: "int \<Rightarrow> string" where
  "levelStringMapping level =
     (if level = LoggerLevelEmergency then ''Emergency''
      else if level = LoggerLevelAlert then ''Alert''
      else if level = LoggerLevelCritical then ''Critical''
      else if level = LoggerLevelError then ''Error''
      else if level = LoggerLevelWarning then ''Warning''
      else if level = LoggerLevelNotice then ''Notice''
      else if level = LoggerLevelInfo then ''Info''
      else if level = LoggerLevelDebug then ''Debug''
      else [])"

definition defaultLoggerMessageFormat :: string where
  "defaultLoggerMessageFormat = ''%millisecond_format% [%level_string%] %body%''"

record loggerMessage =
  Timestamp :: int
  TimestampFormat :: string
  Millisecond :: int
  MillisecondFormat :: string
  Level :: int
  LevelString :: string
  Body :: string
  File :: string
  Line :: int
  Function :: string

text \<open>
  The interface \<open>LoggerAbstract\<close>. The adapters themselves (console, file, api) are not
  part of the dispatch core; an adapter instance is its private state \<open>self\<close> together
  with its methods, each taking the state and returning the new one. \<open>Name()\<close> is never
  called by the core and is left out. \<open>'c\<close> is the type of the \<open>Config\<close> values.
\<close>

record ('s, 'c) LoggerAbstract =
  Init :: "'c \<Rightarrow> 's \<Rightarrow> error option \<times> 's"
  Write :: "loggerMessage \<Rightarrow> 's \<Rightarrow> error option \<times> 's"
  Flush :: "'s \<Rightarrow> 's"
  self :: 's

type_synonym ('s, 'c) adapterLoggerFunc = "unit \<Rightarrow> ('s, 'c) LoggerAbstract"

text \<open>The struct \<open>outputLogger\<close>: a binding. Its field \<open>Level\<close> is \<open>Level_out\<close> here.\<close>

record ('s, 'c) outputLogger =
  Name :: string
  Level_out :: int
  adapterLog :: "('s, 'c) LoggerAbstract"

text \<open>
  The struct \<open>Logger\<close>. A buffered channel is the list of the values it holds, oldest
  first, and the capacity it was made with; \<open>signalChan\<close> always has capacity 1. The
  wait group is its counter. The mutex only serialises \<open>Attach\<close>, \<open>Detach\<close> and
  \<open>SetAsync\<close> and has no field here.
\<close>

record ('s, 'c) Logger =
  outputs :: "('s, 'c) outputLogger list"
  msgChan :: "loggerMessage list"
  msgChanCap :: nat
  synchronous :: bool
  wait :: int
  signalChan :: "string list"

text \<open>
  What the core does to the outside world, in the order it happens: a line printed on
  standard output or standard error, and a call of a binding's \<open>Write\<close> or \<open>Flush\<close>
  (the binding is given by its \<open>Name\<close>).
\<close>

datatype effect =
  Stdout string
| Stderr string
| WriteCall string loggerMessage
| FlushCall string

text \<open>
  How a call made by a goroutine ends: the process exits (\<open>os.Exit\<close>), the
  goroutine panics, the call returns a value, or the goroutine is parked on a channel or
  wait-group operation that only another goroutine can complete. \<open>Panic\<close> and
  \<open>Blocked\<close> carry the logger as it is at that moment.
\<close>

datatype blocked_on = SendMsg loggerMessage | SendSignal string | WaitZero

datatype ('a, 'l) outcome =
  Exit "effect list"
| Panic "effect list" string 'l
| Return "effect list" 'a
| Blocked blocked_on 'l

section \<open>Library functions used by the core\<close>

definition newline :: string where
  "newline = [CHR 0x0A]"

text \<open>
  \<open>strconv.Itoa\<close> and \<open>strconv.FormatInt(_, 10)\<close>: decimal digits, with a sign.
  \<open>FormatUint\<close> gives the digits of a number that is not negative.
\<close>

definition digit_char :: "nat \<Rightarrow> char" where
  "digit_char d = char_of (48 + d)"

function FormatUint :: "int \<Rightarrow> string" where
  "FormatUint n =
     (if n < 10 then [digit_char (nat n)]
      else FormatUint (n div 10) @ [digit_char (nat (n mod 10))])"
  by pat_completeness auto
termination
  by (relation "measure nat") auto

declare FormatUint.simps [simp del]

definition Itoa :: "int \<Rightarrow> string" where
  "Itoa i = (if i < 0 then CHR ''-'' # FormatUint (- i) else FormatUint i)"

text \<open>\<open>strings.HasPrefix\<close> and \<open>strings.Contains\<close>.\<close>

definition HasPrefix :: "string \<Rightarrow> string \<Rightarrow> bool" where
  "HasPrefix s p = (take (length p) s = p)"

fun Contains :: "string \<Rightarrow> string \<Rightarrow> bool" where
  "Contains [] sub = (sub = [])"
| "Contains (c # cs) sub = (HasPrefix (c # cs) sub \<or> Contains cs sub)"

text \<open>
  \<open>strings.Replace(s, old, new, 1)\<close>: the first occurrence of \<open>old\<close> in \<open>s\<close>, read
  from the left, is replaced by \<open>new\<close>; without an occurrence \<open>s\<close> is returned. (An
  empty \<open>old\<close> matches at the start of \<open>s\<close>.)
\<close>

fun Replace1 :: "string \<Rightarrow> string \<Rightarrow> string \<Rightarrow> string" where
  "Replace1 [] old new = (if old = [] then new else [])"
| "Replace1 (c # cs) old new =
     (if HasPrefix (c # cs) old then new @ drop (length old) (c # cs)
      else c # Replace1 cs old new)"

text \<open>
  \<open>strings.ToUpper\<close>. A string of ASCII bytes has its letters \<open>a\<close>..\<open>z\<close> moved to
  \<open>A\<close>..\<open>Z\<close>. A string with a byte of 128 or more is mapped rune by rune through
  \<open>unicode.ToUpper\<close>; the Unicode tables are not part of this development, and that
  mapping of the whole string is the parameter \<open>unicodeUpper\<close>.
\<close>

definition isASCII :: "string \<Rightarrow> bool" where
  "isASCII s = list_all (\<lambda>c. (of_char c :: nat) < 128) s"

definition isLower :: "char \<Rightarrow> bool" where
  "isLower c = (97 \<le> (of_char c :: nat) \<and> (of_char c :: nat) \<le> 122)"

definition upperByte :: "char \<Rightarrow> char" where
  "upperByte c = (if isLower c then char_of ((of_char c :: nat) - 32) else c)"

definition ToUpper :: "(string \<Rightarrow> string) \<Rightarrow> string \<Rightarrow> string" where
  "ToUpper unicodeUpper s =
     (if isASCII s then (if list_ex isLower s then map upperByte s else s)
      else unicodeUpper s)"

text \<open>\<open>path.Split\<close>: the path is cut after its last slash.\<close>

definition path_Split :: "string \<Rightarrow> string \<times> string" where
  "path_Split p =
     (rev (dropWhile (\<lambda>c. c \<noteq> CHR ''/'') (rev p)), rev (takeWhile (\<lambda>c. c \<noteq> CHR ''/'') (rev p)))"

section \<open>The severity model and the message formatter\<close>

definition LoggerLevel :: "(string \<Rightarrow> string) \<Rightarrow> string \<Rightarrow> int" where
  "LoggerLevel unicodeUpper levelStr =
     (let levelStr = ToUpper unicodeUpper levelStr in
      if levelStr = ''EMERGENCY'' then LoggerLevelEmergency
      else if levelStr = ''ALERT'' then LoggerLevelAlert
      else if levelStr = ''CRITICAL'' then LoggerLevelCritical
      else if levelStr = ''ERROR'' then LoggerLevelError
      else if levelStr = ''WARNING'' then LoggerLevelWarning
      else if levelStr = ''NOTICE'' then LoggerLevelNotice
      else if levelStr = ''INFO'' then LoggerLevelInfo
      else if levelStr = ''DEBUG'' then LoggerLevelDebug
      else LoggerLevelDebug)"

text \<open>
  \<open>loggerMessageFormat\<close>: ten calls of \<open>strings.Replace(_, _, _, 1)\<close>, each on the
  result of the one before. \<open>placeholders\<close> lists the tokens and the values in the order
  of the calls.
\<close>

definition placeholders :: "loggerMessage \<Rightarrow> (string \<times> string) list" where
  "placeholders loggerMsg =
     [(''%timestamp%'', Itoa (Timestamp loggerMsg)),
      (''%timestamp_format%'', TimestampFormat loggerMsg),
      (''%millisecond%'', Itoa (Millisecond loggerMsg)),
      (''%millisecond_format%'', MillisecondFormat loggerMsg),
      (''%level%'', Itoa (Level loggerMsg)),
      (''%level_string%'', LevelString loggerMsg),
      (''%file%'', File loggerMsg),
      (''%line%'', Itoa (Line loggerMsg)),
      (''%function%'', Function loggerMsg),
      (''%body%'', Body loggerMsg)]"

definition loggerMessageFormat :: "string \<Rightarrow> loggerMessage \<Rightarrow> string" where
  "loggerMessageFormat format loggerMsg =
     (let message = Replace1 format ''%timestamp%'' (Itoa (Timestamp loggerMsg));
          message = Replace1 message ''%timestamp_format%'' (TimestampFormat loggerMsg);
          message = Replace1 message ''%millisecond%'' (Itoa (Millisecond loggerMsg));
          message = Replace1 message ''%millisecond_format%'' (MillisecondFormat loggerMsg);
          message = Replace1 message ''%level%'' (Itoa (Level loggerMsg));
          message = Replace1 message ''%level_string%'' (LevelString loggerMsg);
          message = Replace1 message ''%file%'' (File loggerMsg);
          message = Replace1 message ''%line%'' (Itoa (Line loggerMsg));
          message = Replace1 message ''%function%'' (Function loggerMsg);
          message = Replace1 message ''%body%'' (Body loggerMsg)
      in message)"

text \<open>One step of \<open>loggerMessageFormat\<close>: a token and its value.\<close>

definition substitute :: "string \<Rightarrow> string \<times> string \<Rightarrow> string" where
  "substitute s p = Replace1 s (fst p) (snd p)"

section \<open>The dispatch core\<close>

text \<open>\<open>printError\<close> prints the message and a newline, then ends the process.\<close>

definition printError :: "string \<Rightarrow> ('a, 'l) outcome" where
  "printError message = Exit [Stdout (message @ newline)]"

text \<open>
  The registry \<open>adapters\<close> is a package variable filled by the adapters' \<open>init\<close>
  functions; it is a parameter of \<open>attach\<close> and \<open>NewLogger\<close>.
\<close>

type_synonym ('s, 'c) registry = "string \<Rightarrow> ('s, 'c) adapterLoggerFunc option"

text \<open>The first loop of \<open>attach\<close>: is there an output with this name?\<close>

fun alreadyAttached :: "('s, 'c) outputLogger list \<Rightarrow> string \<Rightarrow> bool" where
  "alreadyAttached [] adapterName = False"
| "alreadyAttached (output # rest) adapterName =
     (if Name output = adapterName then True else alreadyAttached rest adapterName)"

definition attach ::
  "('s, 'c) registry \<Rightarrow> ('s, 'c) Logger \<Rightarrow> string \<Rightarrow> int \<Rightarrow> 'c
     \<Rightarrow> (error option \<times> ('s, 'c) Logger, ('s, 'c) Logger) outcome" where
  "attach adapters logger adapterName level config =
     (if alreadyAttached (outputs logger) adapterName
      then printError (''logger: adapter '' @ adapterName @ ''already attached!'')
      else case adapters adapterName of
        None \<Rightarrow> printError (''logger: adapter '' @ adapterName @ ''is nil!'')
      | Some logFun \<Rightarrow>
          (let adapterLog = logFun ();
               (err, st) = Init adapterLog config (self adapterLog)
           in case err of
             Some e \<Rightarrow>
               printError (''logger: adapter '' @ adapterName @ '' init failed, error: '' @ e)
           | None \<Rightarrow>
               (let output = \<lparr>Name = adapterName, Level_out = level,
                                adapterLog = adapterLog\<lparr>self := st\<rparr>\<rparr>
                in Return [] (None, logger\<lparr>outputs := outputs logger @ [output]\<rparr>))))"

definition Attach ::
  "('s, 'c) registry \<Rightarrow> ('s, 'c) Logger \<Rightarrow> string \<Rightarrow> int \<Rightarrow> 'c
     \<Rightarrow> (error option \<times> ('s, 'c) Logger, ('s, 'c) Logger) outcome" where
  "Attach adapters logger adapterName level config = attach adapters logger adapterName level config"

text \<open>
  \<open>NewLogger\<close>; \<open>consoleConfig\<close> is the value \<open>&ConsoleConfig{}\<close>, whose type is
  declared with the console adapter.
\<close>

definition NewLogger ::
  "('s, 'c) registry \<Rightarrow> 'c \<Rightarrow> (('s, 'c) Logger, ('s, 'c) Logger) outcome" where
  "NewLogger adapters consoleConfig =
     (let logger = \<lparr>outputs = [], msgChan = [], msgChanCap = 10, synchronous = True,
                     wait = 0, signalChan = []\<rparr>
      in case attach adapters logger ''console'' LoggerLevelDebug consoleConfig of
        Exit es \<Rightarrow> Exit es
      | Panic es p l \<Rightarrow> Panic es p l
      | Blocked b l \<Rightarrow> Blocked b l
      | Return es (err, logger') \<Rightarrow> Return es logger')"

text \<open>The loop of \<open>detach\<close>; \<open>acc\<close> is the local slice \<open>outputs\<close>.\<close>

fun detach_loop ::
  "('s, 'c) outputLogger list \<Rightarrow> string \<Rightarrow> ('s, 'c) outputLogger list
     \<Rightarrow> ('s, 'c) outputLogger list" where
  "detach_loop [] adapterName acc = acc"
| "detach_loop (output # rest) adapterName acc =
     (if Name output = adapterName then detach_loop rest adapterName acc
      else detach_loop rest adapterName (acc @ [output]))"

definition detach :: "('s, 'c) Logger \<Rightarrow> string \<Rightarrow> error option \<times> ('s, 'c) Logger" where
  "detach logger adapterName =
     (None, logger\<lparr>outputs := detach_loop (outputs logger) adapterName []\<rparr>)"

definition Detach :: "('s, 'c) Logger \<Rightarrow> string \<Rightarrow> error option \<times> ('s, 'c) Logger" where
  "Detach logger adapterName = detach logger adapterName"

text \<open>
  \<open>SetAsync\<close>: \<open>data\<close> is the variadic argument. \<open>make\<close> panics on a negative
  capacity and on one too large to allocate; the largest capacity the platform allows
  for a channel of pointers is the parameter \<open>maxChanLen\<close>. The assignment to
  \<open>synchronous\<close> comes before \<open>make\<close>, so it stands when \<open>make\<close> panics. The
  goroutine that \<open>SetAsync\<close> starts is the drain task of the last section.
\<close>

definition SetAsync ::
  "int \<Rightarrow> ('s, 'c) Logger \<Rightarrow> int list \<Rightarrow> (('s, 'c) Logger, ('s, 'c) Logger) outcome" where
  "SetAsync maxChanLen logger data =
     (let logger = logger\<lparr>synchronous := False\<rparr>;
          msgChanLen = (case data of [] \<Rightarrow> 100 | d # _ \<Rightarrow> d) in
      if msgChanLen < 0 \<or> maxChanLen < msgChanLen
      then Panic [] ''makechan: size out of range'' logger
      else Return [] (logger\<lparr>msgChan := [], msgChanCap := nat msgChanLen, signalChan := []\<rparr>))"

text \<open>
  \<open>writeToOutputs\<close>: the outputs in order; the result is what was done and the outputs
  with the adapters' new states.
\<close>

definition writeFailed :: "string \<Rightarrow> error \<Rightarrow> effect" where
  "writeFailed name e =
     Stderr (''logger: unable write loggerMessage to adapter:'' @ name @ '', error: '' @ e @ newline)"

fun writeToOutputs ::
  "('s, 'c) outputLogger list \<Rightarrow> loggerMessage
     \<Rightarrow> effect list \<times> ('s, 'c) outputLogger list" where
  "writeToOutputs [] loggerMsg = ([], [])"
| "writeToOutputs (loggerOutput # rest) loggerMsg =
     (if Level_out loggerOutput \<ge> Level loggerMsg then
        (let a = adapterLog loggerOutput;
             (err, st) = Write a loggerMsg (self a);
             reported = (case err of None \<Rightarrow> [] | Some e \<Rightarrow> [writeFailed (Name loggerOutput) e]);
             (es, rest') = writeToOutputs rest loggerMsg
         in (WriteCall (Name loggerOutput) loggerMsg # reported @ es,
             loggerOutput\<lparr>adapterLog := a\<lparr>self := st\<rparr>\<rparr> # rest'))
      else
        (let (es, rest') = writeToOutputs rest loggerMsg
         in (es, loggerOutput # rest')))"

text \<open>
  What \<open>Writer\<close> reads from its environment: the caller found by \<open>runtime.Caller(3)\<close>
  (function name, file and line; \<open>None\<close> when it reports failure) and the four readings
  of the clock.
\<close>

record env =
  caller :: "(string \<times> string \<times> int) option"
  now_Unix :: int
  now_Format :: string
  now_UnixNano :: int
  now_FormatMilli :: string

text \<open>Go's integer division rounds towards zero.\<close>

definition quo :: "int \<Rightarrow> int \<Rightarrow> int" where
  "quo a b = sgn a * sgn b * (\<bar>a\<bar> div \<bar>b\<bar>)"

definition newLoggerMessage :: "env \<Rightarrow> int \<Rightarrow> string \<Rightarrow> loggerMessage" where
  "newLoggerMessage e level msg =
     (let (funcName, file, line) =
            (case caller e of None \<Rightarrow> (''null'', ''null'', 0)
             | Some (fn, file, line) \<Rightarrow> (fn, file, line));
          filename = snd (path_Split file)
      in \<lparr>Timestamp = now_Unix e,
          TimestampFormat = now_Format e,
          Millisecond = quo (now_UnixNano e) 1000000,
          MillisecondFormat = now_FormatMilli e,
          Level = level,
          LevelString = levelStringMapping level,
          Body = msg,
          File = filename,
          Line = line,
          Function = funcName\<rparr>)"

definition Writer ::
  "env \<Rightarrow> ('s, 'c) Logger \<Rightarrow> int \<Rightarrow> string
     \<Rightarrow> (error option \<times> ('s, 'c) Logger, ('s, 'c) Logger) outcome" where
  "Writer e logger level msg =
     (if levelStringMapping level = [] then
        printError (''logger: level '' @ Itoa level @ '' is illegal!'')
      else
        (let loggerMsg = newLoggerMessage e level msg in
         if \<not> synchronous logger then
           (let logger1 = logger\<lparr>wait := wait logger + 1\<rparr> in
            if length (msgChan logger1) < msgChanCap logger1
            then Return [] (None, logger1\<lparr>msgChan := msgChan logger1 @ [loggerMsg]\<rparr>)
            else Blocked (SendMsg loggerMsg) logger1)
         else
           (let (es, outs) = writeToOutputs (outputs logger) loggerMsg
            in Return es (None, logger\<lparr>outputs := outs\<rparr>))))"

text \<open>One binding's \<open>Flush\<close>, and the loop over the outputs in \<open>flush\<close>.\<close>

definition flushOutput :: "('s, 'c) outputLogger \<Rightarrow> ('s, 'c) outputLogger" where
  "flushOutput loggerOutput =
     loggerOutput\<lparr>adapterLog := (adapterLog loggerOutput)
       \<lparr>self := Flush (adapterLog loggerOutput) (self (adapterLog loggerOutput))\<rparr>\<rparr>"

fun flushOutputs :: "('s, 'c) outputLogger list \<Rightarrow> effect list \<times> ('s, 'c) outputLogger list" where
  "flushOutputs [] = ([], [])"
| "flushOutputs (loggerOutput # rest) =
     (let (es, rest') = flushOutputs rest
      in (FlushCall (Name loggerOutput) # es, flushOutput loggerOutput # rest'))"

definition negativeCounter :: string where
  "negativeCounter = ''sync: negative WaitGroup counter''"

text \<open>
  The first loop of \<open>flush\<close>, run without another goroutine in between: every message
  in the channel is received, written and counted down. \<open>Done\<close> subtracts one and
  panics when the counter has become negative; the result says whether the loop ended
  without a panic and gives what was done, the outputs, the channel and the counter at
  that moment.
\<close>

fun flushChan ::
  "loggerMessage list \<Rightarrow> ('s, 'c) outputLogger list \<Rightarrow> int \<Rightarrow> effect list
     \<Rightarrow> bool \<times> effect list \<times> ('s, 'c) outputLogger list \<times> loggerMessage list \<times> int" where
  "flushChan [] outs w done = (True, done, outs, [], w)"
| "flushChan (loggerMsg # q) outs w done =
     (let (es, outs') = writeToOutputs outs loggerMsg in
      if w - 1 < 0 then (False, done @ es, outs', q, w - 1)
      else flushChan q outs' (w - 1) (done @ es))"

definition flush :: "('s, 'c) Logger \<Rightarrow> (('s, 'c) Logger, ('s, 'c) Logger) outcome" where
  "flush logger =
     (if \<not> synchronous logger then
        (let (ok, es, outs, q, w) = flushChan (msgChan logger) (outputs logger) (wait logger) []
         in if \<not> ok
            then Panic es negativeCounter (logger\<lparr>outputs := outs, msgChan := q, wait := w\<rparr>)
            else
              (let (fs, outs') = flushOutputs outs
               in Return (es @ fs) (logger\<lparr>outputs := outs', msgChan := q, wait := w\<rparr>)))
      else Return [] logger)"

definition Flush :: "('s, 'c) Logger \<Rightarrow> (('s, 'c) Logger, ('s, 'c) Logger) outcome" where
  "Flush logger =
     (if \<not> synchronous logger then
        (if length (signalChan logger) < 1 then
           (let logger1 = logger\<lparr>signalChan := signalChan logger @ [''flush'']\<rparr> in
            if wait logger1 = 0 then Return [] logger1 else Blocked WaitZero logger1)
         else Blocked (SendSignal ''flush'') logger)
      else flush logger)"

text \<open>The facade: one method for each level, the result of \<open>Writer\<close> dropped.\<close>

definition dropResult ::
  "(error option \<times> 'l, 'l) outcome \<Rightarrow> ('l, 'l) outcome" where
  "dropResult r =
     (case r of Exit es \<Rightarrow> Exit es | Panic es p l \<Rightarrow> Panic es p l
      | Blocked b l \<Rightarrow> Blocked b l | Return es (err, l) \<Rightarrow> Return es l)"

definition Emergency :: "env \<Rightarrow> ('s, 'c) Logger \<Rightarrow> string \<Rightarrow> (('s, 'c) Logger, ('s, 'c) Logger) outcome" where
  "Emergency e logger msg = dropResult (Writer e logger LoggerLevelEmergency msg)"

definition Alert :: "env \<Rightarrow> ('s, 'c) Logger \<Rightarrow> string \<Rightarrow> (('s, 'c) Logger, ('s, 'c) Logger) outcome" where
  "Alert e logger msg = dropResult (Writer e logger LoggerLevelAlert msg)"

definition Critical :: "env \<Rightarrow> ('s, 'c) Logger \<Rightarrow> string \<Rightarrow> (('s, 'c) Logger, ('s, 'c) Logger) outcome" where
  "Critical e logger msg = dropResult (Writer e logger LoggerLevelCritical msg)"

definition Error :: "env \<Rightarrow> ('s, 'c) Logger \<Rightarrow> string \<Rightarrow> (('s, 'c) Logger, ('s, 'c) Logger) outcome" where
  "Error e logger msg = dropResult (Writer e logger LoggerLevelError msg)"

definition Warning :: "env \<Rightarrow> ('s, 'c) Logger \<Rightarrow> string \<Rightarrow> (('s, 'c) Logger, ('s, 'c) Logger) outcome" where
  "Warning e logger msg = dropResult (Writer e logger LoggerLevelWarning msg)"

definition Notice :: "env \<Rightarrow> ('s, 'c) Logger \<Rightarrow> string \<Rightarrow> (('s, 'c) Logger, ('s, 'c) Logger) outcome" where
  "Notice e logger msg = dropResult (Writer e logger LoggerLevelNotice msg)"

definition Info :: "env \<Rightarrow> ('s, 'c) Logger \<Rightarrow> string \<Rightarrow> (('s, 'c) Logger, ('s, 'c) Logger) outcome" where
  "Info e logger msg = dropResult (Writer e logger LoggerLevelInfo msg)"

definition Debug :: "env \<Rightarrow> ('s, 'c) Logger \<Rightarrow> string \<Rightarrow> (('s, 'c) Logger, ('s, 'c) Logger) outcome" where
  "Debug e logger msg = dropResult (Writer e logger LoggerLevelDebug msg)"

section \<open>Asynchronous mode: the caller and the drain task\<close>

text \<open>
  After \<open>SetAsync\<close> two goroutines share the logger: the caller, which here makes the
  calls of \<open>Writer\<close> listed in \<open>todo\<close> and then one call of \<open>Flush\<close>, and the drain
  task running \<open>startAsyncWrite\<close>. Each goroutine is at a program point; a step is one
  channel or wait-group operation, one run of \<open>writeToOutputs\<close> (the counter is
  touched only after it, and the caller reads nothing but the counter and the channels),
  or one binding's \<open>Flush\<close> in the loop over the outputs in \<open>flush\<close>. The scheduler
  is free: a schedule is a list of actions, and
  an action that is not enabled (the goroutine is parked) has no successor. \<open>select\<close>
  takes any ready case, so the action of the drain task names the case.

  Points of the caller: \<open>Calls\<close> (before the next call), \<open>InSend m\<close> (in \<open>Writer\<close>,
  after \<open>wait.Add(1)\<close>, at the send on \<open>msgChan\<close>), \<open>InWait\<close> (in \<open>Flush\<close>, after
  the send on \<open>signalChan\<close>, at \<open>wait.Wait()\<close>), \<open>Returned\<close> (\<open>Flush\<close> has returned),
  \<open>Exited\<close> (\<open>os.Exit\<close>).
  Points of the drain task: \<open>Select\<close>; \<open>GotMsg m\<close> and \<open>Wrote\<close> before and after
  \<open>writeToOutputs\<close> in the first case of the \<open>select\<close>; \<open>FlushLoop\<close>, \<open>FlushGot m\<close>
  and \<open>FlushWrote\<close> at the head of the first loop of \<open>flush\<close> and before and after its
  \<open>writeToOutputs\<close>; \<open>FlushOut i\<close> in the loop over the outputs, before the call of
  \<open>Flush\<close> of the output at index \<open>i\<close>; \<open>Crashed\<close> after a panic, which the deferred
  function prints.
\<close>

datatype mainpc = Calls | InSend loggerMessage | InWait | Returned | Exited

datatype drainpc =
  Select | GotMsg loggerMessage | Wrote | FlushLoop | FlushGot loggerMessage | FlushWrote
| FlushOut nat | Crashed

datatype select_case = CaseMsg | CaseSignal

datatype action = MainStep | DrainStep select_case

record ('s, 'c) config =
  shared :: "('s, 'c) Logger"
  todo :: "(env \<times> int \<times> string) list"
  mainpc :: mainpc
  drainpc :: drainpc
  trace :: "effect list"

definition mainStep :: "('s, 'c) config \<Rightarrow> ('s, 'c) config option" where
  "mainStep c =
     (let lg = shared c in
      case mainpc c of
        Calls \<Rightarrow>
          (case todo c of
             (e, level, msg) # rest \<Rightarrow>
               if levelStringMapping level = [] then
                 Some (c\<lparr>mainpc := Exited,
                          trace := trace c @
                            [Stdout (''logger: level '' @ Itoa level @ '' is illegal!'' @ newline)]\<rparr>)
               else if \<not> synchronous lg then
                 Some (c\<lparr>shared := lg\<lparr>wait := wait lg + 1\<rparr>, todo := rest,
                          mainpc := InSend (newLoggerMessage e level msg)\<rparr>)
               else
                 (let (es, outs) = writeToOutputs (outputs lg) (newLoggerMessage e level msg)
                  in Some (c\<lparr>shared := lg\<lparr>outputs := outs\<rparr>, todo := rest,
                              trace := trace c @ es\<rparr>))
           | [] \<Rightarrow>
               if \<not> synchronous lg then
                 (if length (signalChan lg) < 1
                  then Some (c\<lparr>shared := lg\<lparr>signalChan := signalChan lg @ [''flush'']\<rparr>,
                                mainpc := InWait\<rparr>)
                  else None)
               else Some (c\<lparr>mainpc := Returned\<rparr>))
      | InSend m \<Rightarrow>
          if length (msgChan lg) < msgChanCap lg
          then Some (c\<lparr>shared := lg\<lparr>msgChan := msgChan lg @ [m]\<rparr>, mainpc := Calls\<rparr>)
          else if msgChanCap lg = 0 \<and> drainpc c = Select
          then Some (c\<lparr>mainpc := Calls, drainpc := GotMsg m\<rparr>)
          else None
      | InWait \<Rightarrow> if wait lg = 0 then Some (c\<lparr>mainpc := Returned\<rparr>) else None
      | Returned \<Rightarrow> None
      | Exited \<Rightarrow> None)"

definition drainStep :: "select_case \<Rightarrow> ('s, 'c) config \<Rightarrow> ('s, 'c) config option" where
  "drainStep ch c =
     (let lg = shared c in
      if mainpc c = Exited then None
      else case drainpc c of
        Select \<Rightarrow>
          (case ch of
             CaseMsg \<Rightarrow>
               (case msgChan lg of
                  [] \<Rightarrow> None
                | m # q \<Rightarrow> Some (c\<lparr>shared := lg\<lparr>msgChan := q\<rparr>, drainpc := GotMsg m\<rparr>))
           | CaseSignal \<Rightarrow>
               (case signalChan lg of
                  [] \<Rightarrow> None
                | s # ss \<Rightarrow>
                    Some (c\<lparr>shared := lg\<lparr>signalChan := ss\<rparr>,
                             drainpc := (if s = ''flush'' then FlushLoop else Select)\<rparr>)))
      | GotMsg m \<Rightarrow>
          (let (es, outs) = writeToOutputs (outputs lg) m
           in Some (c\<lparr>shared := lg\<lparr>outputs := outs\<rparr>, trace := trace c @ es, drainpc := Wrote\<rparr>))
      | Wrote \<Rightarrow>
          if wait lg - 1 < 0
          then Some (c\<lparr>shared := lg\<lparr>wait := wait lg - 1\<rparr>, drainpc := Crashed,
                        trace := trace c @ [Stdout negativeCounter]\<rparr>)
          else Some (c\<lparr>shared := lg\<lparr>wait := wait lg - 1\<rparr>, drainpc := Select\<rparr>)
      | FlushLoop \<Rightarrow>
          if \<not> synchronous lg then
            (case msgChan lg of
               m # q \<Rightarrow> Some (c\<lparr>shared := lg\<lparr>msgChan := q\<rparr>, drainpc := FlushGot m\<rparr>)
             | [] \<Rightarrow> Some (c\<lparr>drainpc := FlushOut 0\<rparr>))
          else Some (c\<lparr>drainpc := Select\<rparr>)
      | FlushGot m \<Rightarrow>
          (let (es, outs) = writeToOutputs (outputs lg) m
           in Some (c\<lparr>shared := lg\<lparr>outputs := outs\<rparr>, trace := trace c @ es,
                       drainpc := FlushWrote\<rparr>))
      | FlushWrote \<Rightarrow>
          if wait lg - 1 < 0
          then Some (c\<lparr>shared := lg\<lparr>wait := wait lg - 1\<rparr>, drainpc := Crashed,
                        trace := trace c @ [Stdout negativeCounter]\<rparr>)
          else Some (c\<lparr>shared := lg\<lparr>wait := wait lg - 1\<rparr>, drainpc := FlushLoop\<rparr>)
      | FlushOut i \<Rightarrow>
          if i < length (outputs lg)
          then Some (c\<lparr>shared := lg\<lparr>outputs := (outputs lg)[i := flushOutput (outputs lg ! i)]\<rparr>,
                        trace := trace c @ [FlushCall (Name (outputs lg ! i))],
                        drainpc := FlushOut (Suc i)\<rparr>)
          else Some (c\<lparr>drainpc := Select\<rparr>)
      | Crashed \<Rightarrow> None)"

definition step :: "action \<Rightarrow> ('s, 'c) config \<Rightarrow> ('s, 'c) config option" where
  "step a c = (case a of MainStep \<Rightarrow> mainStep c | DrainStep ch \<Rightarrow> drainStep ch c)"

fun run :: "action list \<Rightarrow> ('s, 'c) config \<Rightarrow> ('s, 'c) config option" where
  "run [] c = Some c"
| "run (a # as) c = (case step a c of None \<Rightarrow> None | Some c' \<Rightarrow> run as c')"

definition start :: "('s, 'c) Logger \<Rightarrow> (env \<times> int \<times> string) list \<Rightarrow> ('s, 'c) config" where
  "start lg calls = \<lparr>shared = lg, todo = calls, mainpc = Calls, drainpc = Select, trace = []\<rparr>"

text \<open>The calls of \<open>Write\<close> and of \<open>Flush\<close> in a sequence of effects.\<close>

fun writeCalls :: "effect list \<Rightarrow> (string \<times> loggerMessage) list" where
  "writeCalls [] = []"
| "writeCalls (WriteCall n m # es) = (n, m) # writeCalls es"
| "writeCalls (_ # es) = writeCalls es"

fun flushCalls :: "effect list \<Rightarrow> string list" where
  "flushCalls [] = []"
| "flushCalls (FlushCall n # es) = n # flushCalls es"
| "flushCalls (_ # es) = flushCalls es"

text \<open>A binding admits a message when its level is at least the message's.\<close>

definition admits :: "('s, 'c) outputLogger \<Rightarrow> loggerMessage \<Rightarrow> bool" where
  "admits loggerOutput loggerMsg = (Level_out loggerOutput \<ge> Level loggerMsg)"

text \<open>
  What does not change in asynchronous mode, and the accounting of the messages. A
  binding's \<open>sig\<close> is its name and level; \<open>dispatchCalls\<close> are the calls of \<open>Write\<close>
  that a message causes. \<open>held\<close> is the message the drain task has received and not yet
  written, \<open>undone\<close> counts a message it has received and not yet counted down, and
  \<open>inhand\<close> is the message the caller has counted up and not yet sent.
\<close>

definition sig :: "('s, 'c) outputLogger \<Rightarrow> string \<times> int" where
  "sig output = (Name output, Level_out output)"

definition dispatchCalls :: "(string \<times> int) list \<Rightarrow> loggerMessage \<Rightarrow> (string \<times> loggerMessage) list" where
  "dispatchCalls sigs m = map (\<lambda>p. (fst p, m)) (filter (\<lambda>p. snd p \<ge> Level m) sigs)"

definition callMsg :: "env \<times> int \<times> string \<Rightarrow> loggerMessage" where
  "callMsg call = newLoggerMessage (fst call) (fst (snd call)) (snd (snd call))"

fun held :: "drainpc \<Rightarrow> loggerMessage list" where
  "held (GotMsg m) = [m]"
| "held (FlushGot m) = [m]"
| "held _ = []"

fun undone :: "drainpc \<Rightarrow> int" where
  "undone (GotMsg m) = 1"
| "undone Wrote = 1"
| "undone (FlushGot m) = 1"
| "undone FlushWrote = 1"
| "undone _ = 0"

fun inhand :: "mainpc \<Rightarrow> loggerMessage list" where
  "inhand (InSend m) = [m]"
| "inhand _ = []"

text \<open>
  \<open>flushing\<close>: inside \<open>flush\<close>, the number of bindings whose \<open>Flush\<close> has been
  called; \<open>None\<close> outside \<open>flush\<close>.
\<close>

fun flushing :: "drainpc \<Rightarrow> nat option" where
  "flushing FlushLoop = Some 0"
| "flushing (FlushGot m) = Some 0"
| "flushing FlushWrote = Some 0"
| "flushing (FlushOut i) = Some i"
| "flushing _ = None"

text \<open>
  \<open>frame\<close>: the mode, the capacity and the bindings' names and levels stay as they
  were. \<open>counted\<close>: the messages of the calls are, in order, those already written,
  then the one held by the drain task, the ones in the channel, the one in the caller's
  hand and those of the calls still to make; the calls of \<open>Write\<close> so far are those of
  the written messages; and the counter is the number of messages received or queued or
  in hand. \<open>flushPhase\<close>: before \<open>Flush\<close> no signal is under way; after its send the
  signal is in the channel and no binding has been flushed, or the drain task is in
  \<open>flush\<close> and has flushed the first bindings up to where it stands, or it has left
  \<open>flush\<close> and all the bindings have been flushed, once each.
\<close>

definition frame :: "('s, 'c) Logger \<Rightarrow> ('s, 'c) config \<Rightarrow> bool" where
  "frame lg0 c =
     (\<not> synchronous (shared c) \<and> msgChanCap (shared c) = msgChanCap lg0 \<and>
      map sig (outputs (shared c)) = map sig (outputs lg0))"

definition counted :: "('s, 'c) Logger \<Rightarrow> (env \<times> int \<times> string) list \<Rightarrow> ('s, 'c) config \<Rightarrow> bool" where
  "counted lg0 calls c =
     ((\<exists>written.
         map callMsg calls =
           written @ held (drainpc c) @ msgChan (shared c) @ inhand (mainpc c) @ map callMsg (todo c) \<and>
         writeCalls (trace c) = concat (map (dispatchCalls (map sig (outputs lg0))) written)) \<and>
      wait (shared c) =
        undone (drainpc c) + int (length (msgChan (shared c))) + int (length (inhand (mainpc c))) \<and>
      (mainpc c = InWait \<or> mainpc c = Returned \<longrightarrow> todo c = []) \<and>
      (mainpc c = Returned \<longrightarrow> wait (shared c) = 0) \<and>
      length (msgChan (shared c)) \<le> msgChanCap (shared c) \<and>
      drainpc c \<noteq> Crashed)"

definition flushPhase :: "('s, 'c) Logger \<Rightarrow> ('s, 'c) config \<Rightarrow> bool" where
  "flushPhase lg0 c =
     (case flushing (drainpc c) of
        Some k \<Rightarrow>
          (mainpc c = InWait \<or> mainpc c = Returned) \<and> signalChan (shared c) = [] \<and>
          k \<le> length (outputs lg0) \<and> flushCalls (trace c) = take k (map Name (outputs lg0))
      | None \<Rightarrow>
          if mainpc c = InWait \<or> mainpc c = Returned then
            (signalChan (shared c) = [''flush''] \<and> flushCalls (trace c) = []) \<or>
            (signalChan (shared c) = [] \<and> flushCalls (trace c) = map Name (outputs lg0))
          else signalChan (shared c) = [] \<and> flushCalls (trace c) = [])"

definition good :: "('s, 'c) Logger \<Rightarrow> (env \<times> int \<times> string) list \<Rightarrow> ('s, 'c) config \<Rightarrow> bool" where
  "good lg0 calls c = (frame lg0 c \<and> counted lg0 calls c \<and> flushPhase lg0 c)"

text \<open>
  What one admitted binding contributes to a dispatch, and the binding afterwards.
\<close>

definition writeEffects :: "('s, 'c) outputLogger \<Rightarrow> loggerMessage \<Rightarrow> effect list" where
  "writeEffects loggerOutput loggerMsg =
     WriteCall (Name loggerOutput) loggerMsg #
       (case fst (Write (adapterLog loggerOutput) loggerMsg (self (adapterLog loggerOutput))) of
          None \<Rightarrow> [] | Some e \<Rightarrow> [writeFailed (Name loggerOutput) e])"

definition written :: "('s, 'c) outputLogger \<Rightarrow> loggerMessage \<Rightarrow> ('s, 'c) outputLogger" where
  "written loggerOutput loggerMsg =
     loggerOutput\<lparr>adapterLog := (adapterLog loggerOutput)
       \<lparr>self := snd (Write (adapterLog loggerOutput) loggerMsg (self (adapterLog loggerOutput)))\<rparr>\<rparr>"

text \<open>
  The level names with their levels, read off \<open>levelStringMapping\<close>, and what it means
  for a string to be a name up to the case of its letters: the same length, and at each
  position the same byte or the two cases of one ASCII letter.
\<close>

definition levelNames :: "(string \<times> int) list" where
  "levelNames = map (\<lambda>level. (levelStringMapping level, level))
     [LoggerLevelEmergency, LoggerLevelAlert, LoggerLevelCritical, LoggerLevelError,
      LoggerLevelWarning, LoggerLevelNotice, LoggerLevelInfo, LoggerLevelDebug]"

definition sameLetter :: "char \<Rightarrow> char \<Rightarrow> bool" where
  "sameLetter c d =
     (c = d \<or>
      (65 \<le> (of_char c :: nat) \<and> (of_char c :: nat) \<le> 90 \<and> (of_char d :: nat) = of_char c + 32) \<or>
      (65 \<le> (of_char d :: nat) \<and> (of_char d :: nat) \<le> 90 \<and> (of_char c :: nat) = of_char d + 32))"

definition caseVariant :: "string \<Rightarrow> string \<Rightarrow> bool" where
  "caseVariant s name = list_all2 sameLetter s name"

section \<open>Test fixtures\<close>

text \<open>
  Adapters for concrete runs: one that counts the messages it was given and never fails,
  one whose \<open>Write\<close> always fails, and one whose \<open>Init\<close> fails.
\<close>

definition countingAdapter :: "(nat, unit) LoggerAbstract" where
  "countingAdapter =
     \<lparr>Init = (\<lambda>c s. (None, s)), Write = (\<lambda>m s. (None, Suc s)), Flush = (\<lambda>s. s), self = 0\<rparr>"

definition failingAdapter :: "(nat, unit) LoggerAbstract" where
  "failingAdapter =
     \<lparr>Init = (\<lambda>c s. (None, s)), Write = (\<lambda>m s. (Some ''broken sink'', s)),
      Flush = (\<lambda>s. s), self = 0\<rparr>"

definition rejectingAdapter :: "(nat, unit) LoggerAbstract" where
  "rejectingAdapter =
     \<lparr>Init = (\<lambda>c s. (Some ''bad config'', s)), Write = (\<lambda>m s. (None, s)),
      Flush = (\<lambda>s. s), self = 0\<rparr>"

definition testAdapters :: "(nat, unit) registry" where
  "testAdapters name =
     (if name = ''console'' then Some (\<lambda>_. countingAdapter)
      else if name = ''file'' then Some (\<lambda>_. failingAdapter)
      else if name = ''api'' then Some (\<lambda>_. rejectingAdapter)
      else None)"

definition testEnv :: env where
  "testEnv = \<lparr>caller = Some (''main.main'', ''/home/app/main.go'', 12),
              now_Unix = 1700000000, now_Format = ''2023-11-14 22:13:20'',
              now_UnixNano = 1700000000123000000, now_FormatMilli = ''2023-11-14 22:13:20.123''\<rparr>"

definition testMsg :: "int \<Rightarrow> string \<Rightarrow> loggerMessage" where
  "testMsg level body =
     \<lparr>Timestamp = 1700000000, TimestampFormat = ''2023-11-14 22:13:20'',
      Millisecond = 1700000000123, MillisecondFormat = ''2023-11-14 22:13:20.123'',
      Level = level, LevelString = levelStringMapping level, Body = body,
      File = ''main.go'', Line = 12, Function = ''main.main''\<rparr>"

definition binding :: "string \<Rightarrow> int \<Rightarrow> (nat, unit) LoggerAbstract \<Rightarrow> (nat, unit) outputLogger" where
  "binding name level a = \<lparr>Name = name, Level_out = level, adapterLog = a\<rparr>"

definition testLogger :: "bool \<Rightarrow> (nat, unit) outputLogger list \<Rightarrow> (nat, unit) Logger" where
  "testLogger sync outs =
     \<lparr>outputs = outs, msgChan = [], msgChanCap = (if sync then 10 else 100),
      synchronous = sync, wait = 0, signalChan = []\<rparr>"

text \<open>
  Two calls on an asynchronous logger with two bindings, and three schedules. In
  \<open>flushedFirst\<close> the drain task takes the flush signal before the messages, writes
  them inside \<open>flush\<close> and flushes both bindings before \<open>Flush\<close> returns. In
  \<open>flushedHalf\<close> it does the same, but \<open>Flush\<close> returns between the two bindings'
  \<open>Flush\<close>. In \<open>returnedFirst\<close> it writes both messages before \<open>Flush\<close> is called
  and has not yet taken the signal when \<open>Flush\<close> returns.
\<close>

definition twoCalls :: "(env \<times> int \<times> string) list" where
  "twoCalls = [(testEnv, 3, ''disk full''), (testEnv, 6, ''started'')]"

definition asyncLogger :: "(nat, unit) Logger" where
  "asyncLogger = testLogger False [binding ''console'' 7 countingAdapter, binding ''file'' 4 countingAdapter]"

definition intoFlush :: "action list" where
  "intoFlush = [MainStep, MainStep, MainStep, MainStep, MainStep,
     DrainStep CaseSignal,
     DrainStep CaseMsg, DrainStep CaseMsg, DrainStep CaseMsg,
     DrainStep CaseMsg, DrainStep CaseMsg, DrainStep CaseMsg,
     DrainStep CaseMsg]"

definition flushedFirst :: "action list" where
  "flushedFirst = intoFlush @ [DrainStep CaseMsg, DrainStep CaseMsg, DrainStep CaseMsg, MainStep]"

definition flushedHalf :: "action list" where
  "flushedHalf = intoFlush @ [DrainStep CaseMsg, MainStep]"

definition returnedFirst :: "action list" where
  "returnedFirst = [MainStep, MainStep, DrainStep CaseMsg, DrainStep CaseMsg, DrainStep CaseMsg,
     MainStep, MainStep, DrainStep CaseMsg, DrainStep CaseMsg, DrainStep CaseMsg,
     MainStep, MainStep]"

text \<open>
  Modelled from Go's Unicode tables, for one rune: \<open>strings.ToUpper\<close> on a string
  whose runes are ASCII or U+0131 (the dotless i, the bytes C4 B1 in UTF-8), whose upper
  case is U+0049, the letter I. It is not the mapping of any other rune and is used on
  such strings only.
\<close>

fun upperDotlessI :: "string \<Rightarrow> string" where
  "upperDotlessI (c # d # cs) =
     (if c = char_of (196::nat) \<and> d = char_of (177::nat) then CHR ''I'' # upperDotlessI cs
      else upperByte c # upperDotlessI (d # cs))"
| "upperDotlessI [c] = [upperByte c]"
| "upperDotlessI [] = []"

definition dotlessInfo :: string where
  "dotlessInfo = [char_of (196::nat), char_of (177::nat)] @ ''nfo''"

section \<open>Properties\<close>

lemmas LoggerLevel_consts =
  LoggerLevelEmergency_def LoggerLevelAlert_def LoggerLevelCritical_def LoggerLevelError_def
  LoggerLevelWarning_def LoggerLevelNotice_def LoggerLevelInfo_def LoggerLevelDebug_def

subsection \<open>Detaching\<close>

lemma detach_loop_filter:
  "detach_loop outs n acc = acc @ filter (\<lambda>output. Name output \<noteq> n) outs"
  by (induction outs arbitrary: acc) auto

text \<open>
  C7. For every logger and every adapter name, \<open>detach\<close> returns \<open>nil\<close> and changes
  only the outputs: what is left are exactly the bindings whose name differs from the
  argument, in their original order. When no binding has the name, the logger is
  unchanged.
\<close>

theorem detach_removes_named:
  "fst (detach logger adapterName) = None \<and>
   snd (detach logger adapterName) =
     logger\<lparr>outputs := filter (\<lambda>output. Name output \<noteq> adapterName) (outputs logger)\<rparr> \<and>
   ((\<forall>output \<in> set (outputs logger). Name output \<noteq> adapterName) \<longrightarrow>
      snd (detach logger adapterName) = logger)"
  by (simp add: detach_def detach_loop_filter)

theorem detach_removes_named_witness:
  "outputs (snd (detach (testLogger True [binding ''console'' 7 countingAdapter,
       binding ''file'' 4 failingAdapter, binding ''console'' 3 failingAdapter]) ''console''))
     = [binding ''file'' 4 failingAdapter] \<and>
   (Name (binding ''file'' 4 failingAdapter) \<noteq> ''api'' \<and> Name (binding ''console'' 7 countingAdapter) \<noteq> ''api'') \<and>
   snd (detach (testLogger True [binding ''console'' 7 countingAdapter,
       binding ''file'' 4 failingAdapter]) ''api'')
     = testLogger True [binding ''console'' 7 countingAdapter, binding ''file'' 4 failingAdapter]"
  using detach_removes_named [of "testLogger True [binding ''console'' 7 countingAdapter,
       binding ''file'' 4 failingAdapter, binding ''console'' 3 failingAdapter]" "''console''"]
    detach_removes_named [of "testLogger True [binding ''console'' 7 countingAdapter,
       binding ''file'' 4 failingAdapter]" "''api''"]
  by (simp add: testLogger_def binding_def)

subsection \<open>Construction and attaching\<close>

text \<open>
  C9. \<open>NewLogger\<close> attaches the console adapter itself. Whenever it returns a logger,
  that logger is synchronous and has exactly one binding, named \<open>console\<close>, with level
  \<open>LoggerLevelDebug\<close>, which is 7; and it does return one when the registry has an
  adapter \<open>console\<close> whose \<open>Init\<close> accepts the empty console configuration.
\<close>

theorem NewLogger_default:
  "(adapters ''console'' = Some logFun \<and>
    fst (Init (logFun ()) consoleConfig (self (logFun ()))) = None \<longrightarrow>
      (\<exists>logger. NewLogger adapters consoleConfig = Return [] logger)) \<and>
   (\<forall>es logger. NewLogger adapters consoleConfig = Return es logger \<longrightarrow>
      synchronous logger \<and>
      map (\<lambda>output. (Name output, Level_out output)) (outputs logger) = [(''console'', LoggerLevelDebug)] \<and>
      LoggerLevelDebug = 7)"
  by (auto simp: NewLogger_def attach_def printError_def Let_def LoggerLevelDebug_def
      split: prod.splits option.splits if_splits)

theorem NewLogger_default_witness:
  "testAdapters ''console'' = Some (\<lambda>_. countingAdapter) \<and>
   fst (Init countingAdapter () (self countingAdapter)) = None \<and>
   NewLogger testAdapters () = Return [] (testLogger True [binding ''console'' 7 countingAdapter]) \<and>
   synchronous (testLogger True [binding ''console'' 7 countingAdapter]) \<and>
   map (\<lambda>output. (Name output, Level_out output))
     (outputs (testLogger True [binding ''console'' 7 countingAdapter])) = [(''console'', 7)]"
proof -
  have r: "testAdapters ''console'' = Some (\<lambda>_. countingAdapter)"
    by (simp add: testAdapters_def)
  have i: "fst (Init countingAdapter () (self countingAdapter)) = None"
    by (simp add: countingAdapter_def)
  have n: "NewLogger testAdapters () = Return [] (testLogger True [binding ''console'' 7 countingAdapter])"
    by (simp add: NewLogger_def attach_def testAdapters_def countingAdapter_def testLogger_def
        binding_def LoggerLevelDebug_def)
  from NewLogger_default [of testAdapters "\<lambda>_. countingAdapter" "()"] n
  have "synchronous (testLogger True [binding ''console'' 7 countingAdapter]) \<and>
    map (\<lambda>output. (Name output, Level_out output))
     (outputs (testLogger True [binding ''console'' 7 countingAdapter])) = [(''console'', 7)]"
    by (simp add: LoggerLevelDebug_def)
  with r i n show ?thesis by simp
qed

lemma alreadyAttached_iff:
  "alreadyAttached outs n = (\<exists>output \<in> set outs. Name output = n)"
  by (induction outs) auto

text \<open>
  C1 (as the code has it). \<open>attach\<close> with a name that a binding of the logger already
  has prints \<open>logger: adapter <name>already attached!\<close> and a newline on standard
  output and ends the process, before any adapter is made: no second binding is added.
  With a name that no binding has, it ends the process in the same way when the name is
  not registered (\<open>logger: adapter <name>is nil!\<close>) and when \<open>Init\<close> returns an error
  (\<open>logger: adapter <name> init failed, error: <error>\<close>); otherwise it appends the
  new binding at the end, the other bindings unchanged, and returns \<open>nil\<close>. So it
  returns if and only if no binding has the name, the name is registered and \<open>Init\<close>
  returns no error.
\<close>

theorem attach_duplicate_exits:
  "((\<exists>output \<in> set (outputs logger). Name output = adapterName) \<longrightarrow>
      attach adapters logger adapterName level config =
        Exit [Stdout (''logger: adapter '' @ adapterName @ ''already attached!'' @ [CHR 0x0A])]) \<and>
   ((\<forall>output \<in> set (outputs logger). Name output \<noteq> adapterName) \<and>
    adapters adapterName = None \<longrightarrow>
      attach adapters logger adapterName level config =
        Exit [Stdout (''logger: adapter '' @ adapterName @ ''is nil!'' @ [CHR 0x0A])]) \<and>
   ((\<forall>output \<in> set (outputs logger). Name output \<noteq> adapterName) \<and>
    adapters adapterName = Some logFun \<and>
    Init (logFun ()) config (self (logFun ())) = (Some e, st) \<longrightarrow>
      attach adapters logger adapterName level config =
        Exit [Stdout (''logger: adapter '' @ adapterName @ '' init failed, error: '' @ e @ [CHR 0x0A])]) \<and>
   ((\<forall>output \<in> set (outputs logger). Name output \<noteq> adapterName) \<and>
    adapters adapterName = Some logFun \<and>
    Init (logFun ()) config (self (logFun ())) = (None, st) \<longrightarrow>
      attach adapters logger adapterName level config =
        Return [] (None, logger\<lparr>outputs := outputs logger @
          [\<lparr>Name = adapterName, Level_out = level, adapterLog = (logFun ())\<lparr>self := st\<rparr>\<rparr>]\<rparr>)) \<and>
   ((\<exists>es r. attach adapters logger adapterName level config = Return es r) =
      ((\<forall>output \<in> set (outputs logger). Name output \<noteq> adapterName) \<and>
       (\<exists>f. adapters adapterName = Some f \<and> fst (Init (f ()) config (self (f ()))) = None)))"
  by (auto simp: attach_def alreadyAttached_iff printError_def newline_def Let_def
      split: option.splits prod.splits)

theorem attach_duplicate_exits_witness:
  "Name (binding ''console'' 7 countingAdapter) = ''console'' \<and>
   attach testAdapters (testLogger True [binding ''console'' 7 countingAdapter]) ''console'' 4 () =
     Exit [Stdout (''logger: adapter consolealready attached!'' @ [CHR 0x0A])] \<and>
   Name (binding ''console'' 7 countingAdapter) \<noteq> ''db'' \<and> testAdapters ''db'' = None \<and>
   attach testAdapters (testLogger True [binding ''console'' 7 countingAdapter]) ''db'' 4 () =
     Exit [Stdout (''logger: adapter dbis nil!'' @ [CHR 0x0A])] \<and>
   Name (binding ''console'' 7 countingAdapter) \<noteq> ''api'' \<and>
   testAdapters ''api'' = Some (\<lambda>_. rejectingAdapter) \<and>
   Init rejectingAdapter () (self rejectingAdapter) = (Some ''bad config'', 0) \<and>
   attach testAdapters (testLogger True [binding ''console'' 7 countingAdapter]) ''api'' 4 () =
     Exit [Stdout (''logger: adapter api init failed, error: bad config'' @ [CHR 0x0A])] \<and>
   Name (binding ''console'' 7 countingAdapter) \<noteq> ''file'' \<and>
   testAdapters ''file'' = Some (\<lambda>_. failingAdapter) \<and>
   Init failingAdapter () (self failingAdapter) = (None, 0) \<and>
   attach testAdapters (testLogger True [binding ''console'' 7 countingAdapter]) ''file'' 4 () =
     Return [] (None, testLogger True [binding ''console'' 7 countingAdapter, binding ''file'' 4 failingAdapter])"
  using attach_duplicate_exits [of "testLogger True [binding ''console'' 7 countingAdapter]"
      "''console''" testAdapters 4 "()" "\<lambda>_. failingAdapter" "''bad config''" 0, THEN conjunct1]
    attach_duplicate_exits [of "testLogger True [binding ''console'' 7 countingAdapter]"
      "''db''" testAdapters 4 "()" "\<lambda>_. failingAdapter" "''bad config''" 0,
      THEN conjunct2, THEN conjunct1]
    attach_duplicate_exits [of "testLogger True [binding ''console'' 7 countingAdapter]"
      "''api''" testAdapters 4 "()" "\<lambda>_. rejectingAdapter" "''bad config''" 0,
      THEN conjunct2, THEN conjunct2, THEN conjunct1]
    attach_duplicate_exits [of "testLogger True [binding ''console'' 7 countingAdapter]"
      "''file''" testAdapters 4 "()" "\<lambda>_. failingAdapter" "''bad config''" 0,
      THEN conjunct2, THEN conjunct2, THEN conjunct2, THEN conjunct1]
  by (simp add: testLogger_def binding_def testAdapters_def failingAdapter_def rejectingAdapter_def)

text \<open>
  The logger that \<open>NewLogger\<close> returns holds a binding \<open>console\<close>; attaching
  \<open>console\<close> again does not return a logger with two bindings, it exits.
\<close>

theorem attach_duplicate_counterexample:
  "alreadyAttached (outputs (testLogger True [binding ''console'' 7 countingAdapter])) ''console'' \<and>
   attach testAdapters (testLogger True [binding ''console'' 7 countingAdapter]) ''console'' 4 () =
     Exit [Stdout (''logger: adapter consolealready attached!'' @ [CHR 0x0A])]"
  by (simp add: attach_def testLogger_def binding_def printError_def newline_def)

subsection \<open>Flush in synchronous mode\<close>

text \<open>
  C2 (as the code has it). In synchronous mode \<open>Flush\<close> calls \<open>flush\<close>, whose whole
  body is guarded by \<open>!logger.synchronous\<close>: it returns at once, with no effect at all
  (no binding's \<open>Flush\<close> is called) and the logger unchanged.
\<close>

theorem Flush_synchronous_noop:
  "synchronous logger \<Longrightarrow> Flush logger = Return [] logger"
  by (simp add: Flush_def flush_def)

theorem Flush_synchronous_noop_witness:
  "synchronous (testLogger True [binding ''console'' 7 countingAdapter]) \<and>
   Flush (testLogger True [binding ''console'' 7 countingAdapter]) =
     Return [] (testLogger True [binding ''console'' 7 countingAdapter])"
  using Flush_synchronous_noop [of "testLogger True [binding ''console'' 7 countingAdapter]"]
  by (simp add: testLogger_def)

text \<open>
  A synchronous logger with two bindings: \<open>Flush\<close> returns with an empty list of
  effects, so neither binding's \<open>Flush\<close> was called.
\<close>

theorem Flush_synchronous_counterexample:
  "synchronous (testLogger True [binding ''console'' 7 countingAdapter, binding ''file'' 4 failingAdapter]) \<and>
   map Name (outputs (testLogger True [binding ''console'' 7 countingAdapter, binding ''file'' 4 failingAdapter]))
     = [''console'', ''file''] \<and>
   Flush (testLogger True [binding ''console'' 7 countingAdapter, binding ''file'' 4 failingAdapter]) =
     Return [] (testLogger True [binding ''console'' 7 countingAdapter, binding ''file'' 4 failingAdapter])"
  by (simp add: Flush_def flush_def testLogger_def binding_def)

subsection \<open>Dispatch\<close>

lemma writeToOutputs_effects:
  "fst (writeToOutputs outs m) =
     concat (map (\<lambda>output. if admits output m then writeEffects output m else []) outs)"
  by (induction outs) (simp_all add: admits_def writeEffects_def Let_def case_prod_beta)

lemma writeToOutputs_outputs:
  "snd (writeToOutputs outs m) =
     map (\<lambda>output. if admits output m then written output m else output) outs"
  by (induction outs) (simp_all add: admits_def written_def Let_def case_prod_beta)

lemma writeCalls_append: "writeCalls (xs @ ys) = writeCalls xs @ writeCalls ys"
  by (induction xs rule: writeCalls.induct) auto

lemma writeCalls_writeEffects: "writeCalls (writeEffects output m) = [(Name output, m)]"
  by (simp add: writeEffects_def writeFailed_def split: option.splits)

lemma writeToOutputs_calls:
  "writeCalls (fst (writeToOutputs outs m)) =
     map (\<lambda>output. (Name output, m)) (filter (\<lambda>output. admits output m) outs)"
  unfolding writeToOutputs_effects
  by (induction outs) (auto simp: writeCalls_append writeCalls_writeEffects)

lemma writeFailed_reported:
  "output \<in> set outs \<Longrightarrow> admits output m \<Longrightarrow>
   fst (Write (adapterLog output) m (self (adapterLog output))) = Some e \<Longrightarrow>
   writeFailed (Name output) e \<in> set (fst (writeToOutputs outs m))"
  unfolding writeToOutputs_effects
  by (force simp: writeEffects_def)

lemma Writer_synchronous:
  "synchronous logger \<Longrightarrow> levelStringMapping level \<noteq> [] \<Longrightarrow>
   Writer e logger level msg =
     Return (fst (writeToOutputs (outputs logger) (newLoggerMessage e level msg)))
       (None, logger\<lparr>outputs := snd (writeToOutputs (outputs logger) (newLoggerMessage e level msg))\<rparr>)"
  by (simp add: Writer_def Let_def case_prod_beta)

lemma Level_newLoggerMessage [simp]: "Level (newLoggerMessage e level msg) = level"
  by (simp add: newLoggerMessage_def Let_def case_prod_beta)

text \<open>
  C4. In \<open>writeToOutputs\<close> the calls of \<open>Write\<close> are, in order, one for each binding
  whose level is at least the level of the message, each with that message, and no
  other; the bindings that were called have the state their \<open>Write\<close> returned, the
  others are untouched. For a single binding: it is called if and only if its level is
  at least the message's.
\<close>

theorem dispatch_level_filter:
  "writeCalls (fst (writeToOutputs outs loggerMsg)) =
     map (\<lambda>output. (Name output, loggerMsg))
       (filter (\<lambda>output. Level_out output \<ge> Level loggerMsg) outs) \<and>
   snd (writeToOutputs outs loggerMsg) =
     map (\<lambda>output. if Level_out output \<ge> Level loggerMsg then written output loggerMsg else output) outs \<and>
   ((writeCalls (fst (writeToOutputs [output] loggerMsg)) = [(Name output, loggerMsg)])
      = (Level_out output \<ge> Level loggerMsg)) \<and>
   ((writeCalls (fst (writeToOutputs [output] loggerMsg)) = [])
      = (\<not> Level_out output \<ge> Level loggerMsg))"
  using writeToOutputs_calls [of outs loggerMsg] writeToOutputs_outputs [of outs loggerMsg]
    writeToOutputs_calls [of "[output]" loggerMsg]
  by (auto simp: admits_def)

text \<open>
  A binding with level \<open>LoggerLevelWarning\<close> is given a message of level Emergency and
  one of level Warning, and is not given one of level Notice.
\<close>

theorem dispatch_level_filter_witness:
  "writeCalls (fst (writeToOutputs [binding ''console'' LoggerLevelWarning countingAdapter]
      (testMsg LoggerLevelEmergency ''e''))) = [(''console'', testMsg LoggerLevelEmergency ''e'')] \<and>
   writeCalls (fst (writeToOutputs [binding ''console'' LoggerLevelWarning countingAdapter]
      (testMsg LoggerLevelWarning ''w''))) = [(''console'', testMsg LoggerLevelWarning ''w'')] \<and>
   writeCalls (fst (writeToOutputs [binding ''console'' LoggerLevelWarning countingAdapter]
      (testMsg LoggerLevelNotice ''n''))) = []"
  using dispatch_level_filter [of "[binding ''console'' LoggerLevelWarning countingAdapter]"
      "testMsg LoggerLevelEmergency ''e''", THEN conjunct1]
    dispatch_level_filter [of "[binding ''console'' LoggerLevelWarning countingAdapter]"
      "testMsg LoggerLevelWarning ''w''", THEN conjunct1]
    dispatch_level_filter [of "[binding ''console'' LoggerLevelWarning countingAdapter]"
      "testMsg LoggerLevelNotice ''n''", THEN conjunct1]
  by (simp add: binding_def testMsg_def LoggerLevel_consts del: writeToOutputs.simps)

text \<open>
  C8. The effects of a dispatch are those of the admitted bindings one after the other,
  whatever their \<open>Write\<close> returns: every admitted binding is called, in order, also after
  a failure. A failure is reported on standard error, by the line
  \<open>logger: unable write loggerMessage to adapter:<name>, error: <error>\<close> with the
  binding's name and the error, right after the call that failed. In synchronous mode
  \<open>Writer\<close>, for a defined level, returns \<open>nil\<close> with exactly these effects.
\<close>

theorem write_failure_reported_not_returned:
  "fst (writeToOutputs outs loggerMsg) =
     concat (map (\<lambda>output.
       if Level_out output \<ge> Level loggerMsg then
         WriteCall (Name output) loggerMsg #
           (case fst (Write (adapterLog output) loggerMsg (self (adapterLog output))) of
              None \<Rightarrow> []
            | Some err \<Rightarrow>
                [Stderr (''logger: unable write loggerMessage to adapter:'' @ Name output @
                         '', error: '' @ err @ [CHR 0x0A])])
       else []) outs) \<and>
   writeCalls (fst (writeToOutputs outs loggerMsg)) =
     map (\<lambda>output. (Name output, loggerMsg))
       (filter (\<lambda>output. Level_out output \<ge> Level loggerMsg) outs) \<and>
   (\<forall>output \<in> set outs. \<forall>err. Level_out output \<ge> Level loggerMsg \<and>
      fst (Write (adapterLog output) loggerMsg (self (adapterLog output))) = Some err \<longrightarrow>
      Stderr (''logger: unable write loggerMessage to adapter:'' @ Name output @
              '', error: '' @ err @ [CHR 0x0A])
        \<in> set (fst (writeToOutputs outs loggerMsg))) \<and>
   (synchronous logger \<and> levelStringMapping level \<noteq> [] \<longrightarrow>
      Writer e logger level msg =
        Return (fst (writeToOutputs (outputs logger) (newLoggerMessage e level msg)))
          (None, logger\<lparr>outputs := snd (writeToOutputs (outputs logger) (newLoggerMessage e level msg))\<rparr>))"
proof -
  have 1: "fst (writeToOutputs outs loggerMsg) =
     concat (map (\<lambda>output.
       if Level_out output \<ge> Level loggerMsg then
         WriteCall (Name output) loggerMsg #
           (case fst (Write (adapterLog output) loggerMsg (self (adapterLog output))) of
              None \<Rightarrow> []
            | Some err \<Rightarrow>
                [Stderr (''logger: unable write loggerMessage to adapter:'' @ Name output @
                         '', error: '' @ err @ [CHR 0x0A])])
       else []) outs)"
    unfolding writeToOutputs_effects writeEffects_def admits_def writeFailed_def newline_def ..
  have 2: "writeCalls (fst (writeToOutputs outs loggerMsg)) =
     map (\<lambda>output. (Name output, loggerMsg))
       (filter (\<lambda>output. Level_out output \<ge> Level loggerMsg) outs)"
    unfolding writeToOutputs_calls admits_def ..
  have 3: "\<forall>output \<in> set outs. \<forall>err. Level_out output \<ge> Level loggerMsg \<and>
      fst (Write (adapterLog output) loggerMsg (self (adapterLog output))) = Some err \<longrightarrow>
      Stderr (''logger: unable write loggerMessage to adapter:'' @ Name output @
              '', error: '' @ err @ [CHR 0x0A])
        \<in> set (fst (writeToOutputs outs loggerMsg))"
  proof (intro ballI allI impI)
    fix out err
    assume o: "out \<in> set outs"
      and "Level_out out \<ge> Level loggerMsg \<and>
        fst (Write (adapterLog out) loggerMsg (self (adapterLog out))) = Some err"
    then have "admits out loggerMsg"
      and "fst (Write (adapterLog out) loggerMsg (self (adapterLog out))) = Some err"
      by (simp_all add: admits_def)
    with o have "writeFailed (Name out) err \<in> set (fst (writeToOutputs outs loggerMsg))"
      by (rule writeFailed_reported)
    then show "Stderr (''logger: unable write loggerMessage to adapter:'' @ Name out @
              '', error: '' @ err @ [CHR 0x0A])
        \<in> set (fst (writeToOutputs outs loggerMsg))"
      unfolding writeFailed_def newline_def .
  qed
  have 4: "synchronous logger \<and> levelStringMapping level \<noteq> [] \<longrightarrow>
      Writer e logger level msg =
        Return (fst (writeToOutputs (outputs logger) (newLoggerMessage e level msg)))
          (None, logger\<lparr>outputs := snd (writeToOutputs (outputs logger) (newLoggerMessage e level msg))\<rparr>)"
    using Writer_synchronous [of logger level e msg] by blast
  show ?thesis
    by (rule conjI [OF 1 conjI [OF 2 conjI [OF 3 4]]])
qed

theorem write_failure_reported_not_returned_witness:
  "Level_out (binding ''file'' 7 failingAdapter) \<ge> Level (testMsg 3 ''disk'') \<and>
   fst (Write failingAdapter (testMsg 3 ''disk'') (self failingAdapter)) = Some ''broken sink'' \<and>
   Stderr (''logger: unable write loggerMessage to adapter:file, error: broken sink'' @ [CHR 0x0A])
     \<in> set (fst (writeToOutputs
       [binding ''file'' 7 failingAdapter, binding ''console'' 7 countingAdapter] (testMsg 3 ''disk''))) \<and>
   fst (writeToOutputs
       [binding ''file'' 7 failingAdapter, binding ''console'' 7 countingAdapter] (testMsg 3 ''disk'')) =
     [WriteCall ''file'' (testMsg 3 ''disk''),
      Stderr (''logger: unable write loggerMessage to adapter:file, error: broken sink'' @ [CHR 0x0A]),
      WriteCall ''console'' (testMsg 3 ''disk'')] \<and>
   synchronous (testLogger True [binding ''file'' 7 failingAdapter, binding ''console'' 7 countingAdapter]) \<and>
   levelStringMapping 3 \<noteq> [] \<and>
   Writer testEnv (testLogger True [binding ''file'' 7 failingAdapter, binding ''console'' 7 countingAdapter])
       3 ''disk'' =
     Return [WriteCall ''file'' (newLoggerMessage testEnv 3 ''disk''),
             Stderr (''logger: unable write loggerMessage to adapter:file, error: broken sink'' @ [CHR 0x0A]),
             WriteCall ''console'' (newLoggerMessage testEnv 3 ''disk'')]
       (None, testLogger True [binding ''file'' 7 failingAdapter,
          binding ''console'' 7 (countingAdapter\<lparr>self := 1\<rparr>)])"
proof -
  let ?outs = "[binding ''file'' 7 failingAdapter, binding ''console'' 7 countingAdapter]"
  have l: "Level_out (binding ''file'' 7 failingAdapter) \<ge> Level (testMsg 3 ''disk'')"
    by (simp add: binding_def testMsg_def)
  have f: "fst (Write failingAdapter (testMsg 3 ''disk'') (self failingAdapter)) = Some ''broken sink''"
    by (simp add: failingAdapter_def)
  have f': "fst (Write (adapterLog (binding ''file'' 7 failingAdapter)) (testMsg 3 ''disk'')
      (self (adapterLog (binding ''file'' 7 failingAdapter)))) = Some ''broken sink''"
    by (simp add: failingAdapter_def binding_def)
  have m: "binding ''file'' 7 failingAdapter \<in> set ?outs" by simp
  note t = write_failure_reported_not_returned [of ?outs "testMsg 3 ''disk''"]
  from t [THEN conjunct2, THEN conjunct2, THEN conjunct1, THEN bspec, OF m, THEN spec,
      THEN mp, OF conjI [OF l f']]
  have r: "Stderr (''logger: unable write loggerMessage to adapter:file, error: broken sink'' @ [CHR 0x0A])
     \<in> set (fst (writeToOutputs ?outs (testMsg 3 ''disk'')))"
    by (simp add: binding_def)
  have e: "fst (writeToOutputs ?outs (testMsg 3 ''disk'')) =
     [WriteCall ''file'' (testMsg 3 ''disk''),
      Stderr (''logger: unable write loggerMessage to adapter:file, error: broken sink'' @ [CHR 0x0A]),
      WriteCall ''console'' (testMsg 3 ''disk'')]"
    unfolding t [THEN conjunct1]
    by (simp add: binding_def failingAdapter_def countingAdapter_def testMsg_def)
  have s: "synchronous (testLogger True ?outs)" by (simp add: testLogger_def)
  have d: "levelStringMapping 3 \<noteq> []"
    by (simp add: levelStringMapping_def LoggerLevel_consts)
  have w: "Writer testEnv (testLogger True ?outs) 3 ''disk'' =
     Return [WriteCall ''file'' (newLoggerMessage testEnv 3 ''disk''),
             Stderr (''logger: unable write loggerMessage to adapter:file, error: broken sink'' @ [CHR 0x0A]),
             WriteCall ''console'' (newLoggerMessage testEnv 3 ''disk'')]
       (None, testLogger True [binding ''file'' 7 failingAdapter,
          binding ''console'' 7 (countingAdapter\<lparr>self := 1\<rparr>)])"
    unfolding write_failure_reported_not_returned [of _ _ "testLogger True ?outs" 3 testEnv "''disk''",
        THEN conjunct2, THEN conjunct2, THEN conjunct2, THEN mp, OF conjI [OF s d]]
    by (simp add: testLogger_def binding_def failingAdapter_def countingAdapter_def Let_def
        newline_def writeFailed_def)
  from l f r e s d w show ?thesis by (intro conjI)
qed

subsection \<open>The result of Writer\<close>

lemma levelStringMapping_defined:
  "(levelStringMapping level = []) = (level < 0 \<or> 7 < level)"
  by (auto simp: levelStringMapping_def LoggerLevel_consts)

text \<open>
  C10. \<open>Writer\<close> never returns an error: whenever it returns, the error is \<open>nil\<close>. For
  a defined level (0 to 7) it neither exits nor panics; in synchronous mode it returns
  \<open>nil\<close>; in asynchronous mode it returns \<open>nil\<close> with the message queued when the
  channel has room, and otherwise is parked at the send, after which the only statement
  left is \<open>return nil\<close>.
\<close>

theorem Writer_returns_nil:
  "(\<forall>es err logger'. Writer e logger level msg = Return es (err, logger') \<longrightarrow> err = None) \<and>
   (0 \<le> level \<and> level \<le> 7 \<longrightarrow>
      (\<forall>es. Writer e logger level msg \<noteq> Exit es) \<and>
      (\<forall>es p l. Writer e logger level msg \<noteq> Panic es p l) \<and>
      (synchronous logger \<longrightarrow>
         (\<exists>es logger'. Writer e logger level msg = Return es (None, logger'))) \<and>
      (\<not> synchronous logger \<and> length (msgChan logger) < msgChanCap logger \<longrightarrow>
         Writer e logger level msg =
           Return [] (None, logger\<lparr>wait := wait logger + 1,
             msgChan := msgChan logger @ [newLoggerMessage e level msg]\<rparr>)) \<and>
      (\<not> synchronous logger \<and> \<not> length (msgChan logger) < msgChanCap logger \<longrightarrow>
         Writer e logger level msg =
           Blocked (SendMsg (newLoggerMessage e level msg)) (logger\<lparr>wait := wait logger + 1\<rparr>)))"
  by (auto simp: Writer_def Let_def printError_def levelStringMapping_defined split: prod.splits if_splits)

theorem Writer_returns_nil_witness:
  "(0::int) \<le> 3 \<and> (3::int) \<le> 7 \<and>
   synchronous (testLogger True [binding ''file'' 7 failingAdapter]) \<and>
   (\<exists>es logger'. Writer testEnv (testLogger True [binding ''file'' 7 failingAdapter]) 3 ''disk'' =
      Return es (None, logger')) \<and>
   \<not> synchronous (testLogger False [binding ''file'' 7 failingAdapter]) \<and>
   length (msgChan (testLogger False [binding ''file'' 7 failingAdapter]))
     < msgChanCap (testLogger False [binding ''file'' 7 failingAdapter]) \<and>
   Writer testEnv (testLogger False [binding ''file'' 7 failingAdapter]) 3 ''disk'' =
     Return [] (None, (testLogger False [binding ''file'' 7 failingAdapter])
       \<lparr>wait := 1, msgChan := [newLoggerMessage testEnv 3 ''disk'']\<rparr>) \<and>
   \<not> length (msgChan ((testLogger False [])\<lparr>msgChanCap := 0\<rparr>))
     < msgChanCap ((testLogger False [])\<lparr>msgChanCap := 0\<rparr>) \<and>
   Writer testEnv ((testLogger False [])\<lparr>msgChanCap := 0\<rparr>) 3 ''disk'' =
     Blocked (SendMsg (newLoggerMessage testEnv 3 ''disk''))
       ((testLogger False [])\<lparr>msgChanCap := 0, wait := 1\<rparr>)"
  using Writer_returns_nil [of testEnv "testLogger True [binding ''file'' 7 failingAdapter]" 3 "''disk''"]
    Writer_returns_nil [of testEnv "testLogger False [binding ''file'' 7 failingAdapter]" 3 "''disk''"]
    Writer_returns_nil [of testEnv "(testLogger False [])\<lparr>msgChanCap := 0\<rparr>" 3 "''disk''"]
  by (simp add: testLogger_def)

text \<open>The methods of the facade call \<open>Writer\<close> with the eight defined levels only.\<close>

lemma facade_levels:
  "Emergency e logger msg = dropResult (Writer e logger 0 msg)"
  "Alert e logger msg = dropResult (Writer e logger 1 msg)"
  "Critical e logger msg = dropResult (Writer e logger 2 msg)"
  "Error e logger msg = dropResult (Writer e logger 3 msg)"
  "Warning e logger msg = dropResult (Writer e logger 4 msg)"
  "Notice e logger msg = dropResult (Writer e logger 5 msg)"
  "Info e logger msg = dropResult (Writer e logger 6 msg)"
  "Debug e logger msg = dropResult (Writer e logger 7 msg)"
  by (simp_all add: Emergency_def Alert_def Critical_def Error_def Warning_def Notice_def
      Info_def Debug_def LoggerLevel_consts)

lemma dropResult_Writer_no_exit:
  "0 \<le> level \<Longrightarrow> level \<le> 7 \<Longrightarrow> dropResult (Writer e logger level msg) \<noteq> Exit es"
  by (auto simp: dropResult_def Writer_def Let_def case_prod_beta levelStringMapping_defined
      split: outcome.splits)

lemma facade_does_not_exit:
  "Emergency e logger msg \<noteq> Exit es" "Alert e logger msg \<noteq> Exit es"
  "Critical e logger msg \<noteq> Exit es" "Error e logger msg \<noteq> Exit es"
  "Warning e logger msg \<noteq> Exit es" "Notice e logger msg \<noteq> Exit es"
  "Info e logger msg \<noteq> Exit es" "Debug e logger msg \<noteq> Exit es"
  by (simp_all add: facade_levels dropResult_Writer_no_exit)

subsection \<open>Parsing a level name\<close>

lemma of_char_lt_256: "(of_char c :: nat) < 256"
  using of_char_mod_256 [of c, where ?'a = nat] by (metis mod_less_divisor zero_less_numeral)

lemma sameLetter_iff: "sameLetter c d = (upperByte c = upperByte d)"
proof -
  have c: "(of_char c :: nat) < 256" and d: "(of_char d :: nat) < 256"
    by (rule of_char_lt_256)+
  have eq: "(c = d) = ((of_char c :: nat) = of_char d)" by simp
  have up: "(upperByte c = upperByte d) = ((of_char (upperByte c) :: nat) = of_char (upperByte d))"
    by simp
  have uc: "(of_char (upperByte c) :: nat) =
      (if 97 \<le> (of_char c :: nat) \<and> (of_char c :: nat) \<le> 122 then of_char c - 32 else of_char c)"
    using c by (simp add: upperByte_def isLower_def less_imp_diff_less)
  have ud: "(of_char (upperByte d) :: nat) =
      (if 97 \<le> (of_char d :: nat) \<and> (of_char d :: nat) \<le> 122 then of_char d - 32 else of_char d)"
    using d by (simp add: upperByte_def isLower_def less_imp_diff_less)
  show ?thesis
    unfolding sameLetter_def eq up uc ud by arith
qed

lemma caseVariant_iff: "caseVariant s name = (map upperByte s = map upperByte name)"
  unfolding caseVariant_def
  by (induction s arbitrary: name) (auto simp: sameLetter_iff list_all2_Cons1 Cons_eq_map_conv)

lemma upperByte_id: "\<not> isLower c \<Longrightarrow> upperByte c = c"
  by (simp add: upperByte_def)

lemma ToUpper_ascii: "isASCII s \<Longrightarrow> ToUpper U s = map upperByte s"
  by (auto simp: ToUpper_def list_ex_iff upperByte_id map_idI)

lemma upperByte_ascii: "(of_char (upperByte c) :: nat) < 128 \<Longrightarrow> (of_char c :: nat) < 128"
  using of_char_lt_256 [of c]
  by (auto simp: upperByte_def isLower_def split: if_splits)

lemma map_upperByte_ascii: "isASCII (map upperByte s) \<Longrightarrow> isASCII s"
  by (induction s) (auto simp: isASCII_def dest: upperByte_ascii)

lemma upper_names:
  "map upperByte ''Emergency'' = ''EMERGENCY''"
  "map upperByte ''Alert'' = ''ALERT''"
  "map upperByte ''Critical'' = ''CRITICAL''"
  "map upperByte ''Error'' = ''ERROR''"
  "map upperByte ''Warning'' = ''WARNING''"
  "map upperByte ''Notice'' = ''NOTICE''"
  "map upperByte ''Info'' = ''INFO''"
  "map upperByte ''Debug'' = ''DEBUG''"
  by code_simp+

lemma levelNames_eq:
  "levelNames = [(''Emergency'', 0), (''Alert'', 1), (''Critical'', 2), (''Error'', 3),
     (''Warning'', 4), (''Notice'', 5), (''Info'', 6), (''Debug'', 7)]"
  by (simp add: levelNames_def levelStringMapping_def LoggerLevel_consts)

lemma LoggerLevel_ascii:
  "isASCII s \<Longrightarrow> LoggerLevel U s =
     (if map upperByte s = ''EMERGENCY'' then 0
      else if map upperByte s = ''ALERT'' then 1
      else if map upperByte s = ''CRITICAL'' then 2
      else if map upperByte s = ''ERROR'' then 3
      else if map upperByte s = ''WARNING'' then 4
      else if map upperByte s = ''NOTICE'' then 5
      else if map upperByte s = ''INFO'' then 6 else 7)"
  by (simp add: LoggerLevel_def ToUpper_ascii LoggerLevel_consts Let_def)

lemma upperByte_keeps_ascii: "(of_char c :: nat) < 128 \<Longrightarrow> (of_char (upperByte c) :: nat) < 128"
  by (simp add: upperByte_def isLower_def less_imp_diff_less)

lemma isASCII_map_upperByte: "isASCII (map upperByte s) = isASCII s"
  by (induction s) (auto simp: isASCII_def dest: upperByte_ascii upperByte_keeps_ascii)

lemma LoggerLevel_same_upper:
  "isASCII s \<Longrightarrow> isASCII t \<Longrightarrow> map upperByte s = map upperByte t \<Longrightarrow>
   LoggerLevel U s = LoggerLevel U' t"
  by (simp add: LoggerLevel_def ToUpper_ascii)

lemma levelNames_parse:
  "list_all (\<lambda>(name, level). isASCII name \<and> LoggerLevel (\<lambda>x. x) name = level) levelNames"
  by code_simp

lemma levelNames_upper:
  "map (\<lambda>p. map upperByte (fst p)) levelNames =
     [''EMERGENCY'', ''ALERT'', ''CRITICAL'', ''ERROR'', ''WARNING'', ''NOTICE'', ''INFO'', ''DEBUG'']"
  by code_simp

lemma levelNames_mem:
  "(''Emergency'', 0) \<in> set levelNames" "(''Alert'', 1) \<in> set levelNames"
  "(''Critical'', 2) \<in> set levelNames" "(''Error'', 3) \<in> set levelNames"
  "(''Warning'', 4) \<in> set levelNames" "(''Notice'', 5) \<in> set levelNames"
  "(''Info'', 6) \<in> set levelNames"
  by (simp_all add: levelNames_eq)

lemma LoggerLevel_same_ToUpper:
  "ToUpper U s = ToUpper U' t \<Longrightarrow> LoggerLevel U s = LoggerLevel U' t"
  by (simp add: LoggerLevel_def)

text \<open>
  C6 (as the code has it). \<open>LoggerLevel\<close> gives a level's number for every spelling of
  its name in upper and lower case ASCII letters, for all eight names; for every ASCII
  string that is not such a spelling of any name, and for the empty string, it gives
  \<open>LoggerLevelDebug\<close>. A string with a byte outside ASCII is upper-cased through the
  Unicode tables: it gives the level whose name in upper case the tables map it to, and
  \<open>LoggerLevelDebug\<close> when they map it to none of them.
\<close>

theorem LoggerLevel_case_insensitive:
  "(\<forall>(name, level) \<in> set levelNames. caseVariant s name \<longrightarrow> LoggerLevel U s = level) \<and>
   (isASCII s \<and> (\<forall>(name, level) \<in> set levelNames. \<not> caseVariant s name) \<longrightarrow>
      LoggerLevel U s = LoggerLevelDebug) \<and>
   LoggerLevel U [] = LoggerLevelDebug \<and>
   (\<not> isASCII s \<and> U s \<notin> set (map (\<lambda>p. map upperByte (fst p)) levelNames) \<longrightarrow>
      LoggerLevel U s = LoggerLevelDebug) \<and>
   (\<forall>(name, level) \<in> set levelNames. \<not> isASCII s \<and> U s = map upperByte name \<longrightarrow>
      LoggerLevel U s = level)"
proof (intro conjI)
  show "\<forall>(name, level) \<in> set levelNames. caseVariant s name \<longrightarrow> LoggerLevel U s = level"
  proof (clarify)
    fix name level
    assume mem: "(name, level) \<in> set levelNames" and cv: "caseVariant s name"
    from mem levelNames_parse have n: "isASCII name" and l: "LoggerLevel (\<lambda>x. x) name = level"
      by (auto simp: list_all_iff)
    from cv have eq: "map upperByte s = map upperByte name"
      by (simp add: caseVariant_iff)
    have "isASCII (map upperByte s)"
      unfolding eq using n by (simp add: isASCII_map_upperByte)
    then have "isASCII s" by (simp add: isASCII_map_upperByte)
    then have "LoggerLevel U s = LoggerLevel (\<lambda>x. x) name"
      using n eq by (rule LoggerLevel_same_upper)
    then show "LoggerLevel U s = level"
      using l by simp
  qed
  show "isASCII s \<and> (\<forall>(name, level) \<in> set levelNames. \<not> caseVariant s name) \<longrightarrow>
      LoggerLevel U s = LoggerLevelDebug"
  proof (clarify)
    assume a: "isASCII s" and b: "\<forall>(name, level) \<in> set levelNames. \<not> caseVariant s name"
    have m: "map upperByte s \<noteq> map upperByte name" if "(name, level) \<in> set levelNames"
      for name level
      using b that by (auto simp: caseVariant_iff)
    note ne = levelNames_mem [THEN m, unfolded upper_names]
    show "LoggerLevel U s = LoggerLevelDebug"
      using ne by (simp add: LoggerLevel_ascii [OF a] LoggerLevelDebug_def)
  qed
  show "LoggerLevel U [] = LoggerLevelDebug"
    by (simp add: LoggerLevel_def ToUpper_def isASCII_def Let_def)
  show "\<not> isASCII s \<and> U s \<notin> set (map (\<lambda>p. map upperByte (fst p)) levelNames) \<longrightarrow>
      LoggerLevel U s = LoggerLevelDebug"
    unfolding levelNames_upper
    by (simp add: LoggerLevel_def ToUpper_def Let_def)
  show "\<forall>(name, level) \<in> set levelNames. \<not> isASCII s \<and> U s = map upperByte name \<longrightarrow>
      LoggerLevel U s = level"
  proof (clarify)
    fix name level
    assume mem: "(name, level) \<in> set levelNames" and na: "\<not> isASCII s"
      and u: "U s = map upperByte name"
    from mem levelNames_parse have n: "isASCII name" and l: "LoggerLevel (\<lambda>x. x) name = level"
      by (auto simp: list_all_iff)
    have "ToUpper U s = ToUpper (\<lambda>x. x) name"
      using na u n by (simp add: ToUpper_ascii) (simp add: ToUpper_def)
    then have "LoggerLevel U s = LoggerLevel (\<lambda>x. x) name"
      by (rule LoggerLevel_same_ToUpper)
    with l show "LoggerLevel U s = level" by simp
  qed
qed

text \<open>
  The string \<open>dotlessInfo\<close>, the word info written with the dotless i U+0131:
  it is not a spelling of a level name in upper and lower case letters, and the upper
  case of U+0131 is the letter I, so \<open>strings.ToUpper\<close> makes it \<open>INFO\<close> and the
  result is \<open>LoggerLevelInfo\<close>, not \<open>LoggerLevelDebug\<close>.
\<close>

theorem LoggerLevel_counterexample:
  "list_all (\<lambda>p. \<not> caseVariant dotlessInfo (fst p)) levelNames \<and>
   dotlessInfo \<noteq> [] \<and>
   upperDotlessI dotlessInfo = ''INFO'' \<and>
   LoggerLevel upperDotlessI dotlessInfo = LoggerLevelInfo \<and>
   LoggerLevelInfo \<noteq> LoggerLevelDebug"
  by code_simp

theorem LoggerLevel_case_insensitive_witness:
  "(''Warning'', LoggerLevelWarning) \<in> set levelNames \<and> caseVariant ''WARNING'' ''Warning'' \<and>
   LoggerLevel (\<lambda>x. x) ''WARNING'' = LoggerLevelWarning \<and>
   (''Emergency'', LoggerLevelEmergency) \<in> set levelNames \<and> caseVariant ''emerGENCY'' ''Emergency'' \<and>
   LoggerLevel (\<lambda>x. x) ''emerGENCY'' = LoggerLevelEmergency \<and>
   isASCII ''bogus'' \<and> list_all (\<lambda>(name, level). \<not> caseVariant ''bogus'' name) levelNames \<and>
   LoggerLevel (\<lambda>x. x) ''bogus'' = LoggerLevelDebug \<and>
   \<not> isASCII [char_of (200::nat)] \<and>
   [char_of (200::nat)] \<notin> set (map (\<lambda>p. map upperByte (fst p)) levelNames) \<and>
   LoggerLevel (\<lambda>x. x) [char_of (200::nat)] = LoggerLevelDebug \<and>
   (''Info'', LoggerLevelInfo) \<in> set levelNames \<and> \<not> isASCII dotlessInfo \<and>
   upperDotlessI dotlessInfo = map upperByte ''Info'' \<and>
   LoggerLevel upperDotlessI dotlessInfo = LoggerLevelInfo"
proof -
  have w: "(''Warning'', LoggerLevelWarning) \<in> set levelNames"
    and e: "(''Emergency'', LoggerLevelEmergency) \<in> set levelNames"
    and i: "(''Info'', LoggerLevelInfo) \<in> set levelNames"
    by (simp_all add: levelNames_def levelStringMapping_def LoggerLevel_consts)
  have cw: "caseVariant ''WARNING'' ''Warning''" and ce: "caseVariant ''emerGENCY'' ''Emergency''"
    by (simp_all add: caseVariant_def sameLetter_def)
  have ab: "isASCII ''bogus''" by (simp add: isASCII_def)
  have nb: "list_all (\<lambda>(name, level). \<not> caseVariant ''bogus'' name) levelNames"
    by code_simp
  have 1: "LoggerLevel (\<lambda>x. x) ''WARNING'' = LoggerLevelWarning"
    using LoggerLevel_case_insensitive [of "''WARNING''" "\<lambda>x. x", THEN conjunct1, THEN bspec, OF w] cw
    by simp
  have 2: "LoggerLevel (\<lambda>x. x) ''emerGENCY'' = LoggerLevelEmergency"
    using LoggerLevel_case_insensitive [of "''emerGENCY''" "\<lambda>x. x", THEN conjunct1, THEN bspec, OF e] ce
    by simp
  from LoggerLevel_case_insensitive [of "''bogus''" "\<lambda>x. x"] ab nb
  have 3: "LoggerLevel (\<lambda>x. x) ''bogus'' = LoggerLevelDebug" by (simp add: list_all_iff)
  have na: "\<not> isASCII [char_of (200::nat)]" by (simp add: isASCII_def)
  have nn: "[char_of (200::nat)] \<notin> set (map (\<lambda>p. map upperByte (fst p)) levelNames)"
    unfolding levelNames_upper by simp
  from LoggerLevel_case_insensitive [of "[char_of (200::nat)]" "\<lambda>x. x"] na nn
  have 4: "LoggerLevel (\<lambda>x. x) [char_of (200::nat)] = LoggerLevelDebug" by simp
  have nd: "\<not> isASCII dotlessInfo" by code_simp
  have ud: "upperDotlessI dotlessInfo = map upperByte ''Info''" by code_simp
  have 5: "LoggerLevel upperDotlessI dotlessInfo = LoggerLevelInfo"
    using LoggerLevel_case_insensitive [of dotlessInfo upperDotlessI, THEN conjunct2, THEN conjunct2,
        THEN conjunct2, THEN conjunct2, THEN bspec, OF i] nd ud
    by simp
  from w cw 1 e ce 2 ab nb 3 na nn 4 i nd ud 5 show ?thesis by (intro conjI)
qed

subsection \<open>The message formatter\<close>

lemma loggerMessageFormat_foldl:
  "loggerMessageFormat format m = foldl substitute format (placeholders m)"
  by (simp add: loggerMessageFormat_def placeholders_def substitute_def Let_def)

lemma Replace1_absent: "\<not> Contains s tok \<Longrightarrow> Replace1 s tok v = s"
  by (induction s) auto

lemma HasPrefix_inside:
  assumes "xs \<noteq> []"
  shows "HasPrefix (xs @ tok @ post) tok = HasPrefix (xs @ butlast tok) tok"
proof (cases "tok = []")
  case True
  then show ?thesis by (simp add: HasPrefix_def)
next
  case False
  then have split: "xs @ tok @ post = (xs @ butlast tok) @ (last tok # post)"
    by simp
  have "length tok \<le> length (xs @ butlast tok)"
    using assms False by (cases xs) auto
  then have "take (length tok) ((xs @ butlast tok) @ (last tok # post)) = take (length tok) (xs @ butlast tok)"
    by simp
  then show ?thesis
    unfolding HasPrefix_def split by simp
qed

lemma Replace1_first:
  "tok \<noteq> [] \<Longrightarrow> \<not> Contains (pre @ butlast tok) tok \<Longrightarrow>
   Replace1 (pre @ tok @ post) tok v = pre @ v @ post"
proof (induction pre)
  case Nil
  then show ?case by (cases tok) (simp_all add: HasPrefix_def)
next
  case (Cons c pre)
  have "\<not> HasPrefix ((c # pre) @ butlast tok) tok" and rest: "\<not> Contains (pre @ butlast tok) tok"
    using Cons.prems(2) by auto
  then have "\<not> HasPrefix ((c # pre) @ tok @ post) tok"
    using HasPrefix_inside [of "c # pre" tok post] by simp
  then show ?case
    using Cons.IH [OF Cons.prems(1) rest] by simp
qed

lemma foldl_substitute_absent:
  "\<forall>p \<in> set ps. \<not> Contains s (fst p) \<Longrightarrow> foldl substitute s ps = s"
  by (induction ps) (auto simp: substitute_def Replace1_absent)

text \<open>
  C5 (as the code has it). \<open>loggerMessageFormat\<close> makes ten replacements, one for each
  token in the order of \<open>placeholders\<close>, each of the first occurrence only and each on
  the text the one before left. So: a format in which no token occurs is returned as it
  is. If, in the text left by the replacements before a token, \<open>pre @ tok @ post\<close> is
  the first occurrence of the token, and none of the later tokens occurs in
  \<open>pre @ v @ post\<close>, the result is \<open>pre @ v @ post\<close>: the value is in the result as it
  is, and further occurrences of the token in \<open>post\<close> stay. The body is replaced last,
  so it is always in the result as it is, whatever it contains. A value put in by an
  earlier replacement is read again by the later ones.
\<close>

theorem loggerMessageFormat_sequential:
  "((\<forall>p \<in> set (placeholders loggerMsg). \<not> Contains format (fst p)) \<longrightarrow>
      loggerMessageFormat format loggerMsg = format) \<and>
   (placeholders loggerMsg = before @ (tok, v) # after \<and>
    foldl substitute format before = pre @ tok @ post \<and>
    \<not> Contains (pre @ butlast tok) tok \<and>
    (\<forall>p \<in> set after. \<not> Contains (pre @ v @ post) (fst p)) \<longrightarrow>
      loggerMessageFormat format loggerMsg = pre @ v @ post) \<and>
   (foldl substitute format (butlast (placeholders loggerMsg)) = pre @ ''%body%'' @ post \<and>
    \<not> Contains (pre @ ''%body'') ''%body%'' \<longrightarrow>
      loggerMessageFormat format loggerMsg = pre @ Body loggerMsg @ post)"
proof (intro conjI impI)
  assume "\<forall>p \<in> set (placeholders loggerMsg). \<not> Contains format (fst p)"
  then show "loggerMessageFormat format loggerMsg = format"
    by (simp add: loggerMessageFormat_foldl foldl_substitute_absent)
next
  assume a: "placeholders loggerMsg = before @ (tok, v) # after \<and>
    foldl substitute format before = pre @ tok @ post \<and>
    \<not> Contains (pre @ butlast tok) tok \<and>
    (\<forall>p \<in> set after. \<not> Contains (pre @ v @ post) (fst p))"
  have "(tok, v) \<in> set (placeholders loggerMsg)" using a by simp
  then have ne: "tok \<noteq> []" by (auto simp: placeholders_def)
  have "substitute (pre @ tok @ post) (tok, v) = pre @ v @ post"
    using a ne by (simp add: substitute_def Replace1_first)
  then show "loggerMessageFormat format loggerMsg = pre @ v @ post"
    using a by (simp add: loggerMessageFormat_foldl foldl_substitute_absent)
next
  assume a: "foldl substitute format (butlast (placeholders loggerMsg)) = pre @ ''%body%'' @ post \<and>
    \<not> Contains (pre @ ''%body'') ''%body%''"
  have p: "placeholders loggerMsg = butlast (placeholders loggerMsg) @ [(''%body%'', Body loggerMsg)]"
    by (simp add: placeholders_def)
  have "loggerMessageFormat format loggerMsg =
      substitute (foldl substitute format (butlast (placeholders loggerMsg))) (''%body%'', Body loggerMsg)"
    unfolding loggerMessageFormat_foldl by (subst p) (simp only: foldl_append foldl.simps)
  also have "\<dots> = Replace1 (pre @ ''%body%'' @ post) ''%body%'' (Body loggerMsg)"
    using a by (simp add: substitute_def)
  also have "\<dots> = pre @ Body loggerMsg @ post"
    using a by (intro Replace1_first) simp_all
  finally show "loggerMessageFormat format loggerMsg = pre @ Body loggerMsg @ post" .
qed

text \<open>
  A file name that contains \<open>%body%\<close>: the replacement of \<open>%body%\<close> finds it first, so
  the body lands inside the file name and the format's own \<open>%body%\<close> stays.
\<close>

theorem loggerMessageFormat_counterexample:
  "loggerMessageFormat ''%file% %body%'' ((testMsg 7 ''hi'')\<lparr>File := ''%body%''\<rparr>) = ''hi %body%'' \<and>
   loggerMessageFormat ''%file% %body%'' ((testMsg 7 ''hi'')\<lparr>File := ''%body%''\<rparr>) \<noteq> ''%body% hi''"
  by (simp add: loggerMessageFormat_def testMsg_def HasPrefix_def)

lemma LevelString_testMsg: "LevelString (testMsg 7 body) = ''Debug''"
  by (simp add: testMsg_def levelStringMapping_def LoggerLevel_consts)

theorem loggerMessageFormat_sequential_witness:
  "loggerMessageFormat ''100% of %foo%'' (testMsg 7 ''hi'') = ''100% of %foo%'' \<and>
   loggerMessageFormat ''%level_string% %level_string%'' (testMsg 7 ''hi'') = ''Debug %level_string%'' \<and>
   loggerMessageFormat ''%level_string% %body%'' (testMsg 7 ''hi'') = ''Debug hi'' \<and>
   loggerMessageFormat ''%level_string% %body% %body%'' (testMsg 7 ''say %body% twice'') =
     ''Debug say %body% twice %body%''"
proof -
  have a: "\<forall>p \<in> set (placeholders (testMsg 7 ''hi'')). \<not> Contains ''100% of %foo%'' (fst p)"
    by (simp add: placeholders_def HasPrefix_def)
  have 1: "loggerMessageFormat ''100% of %foo%'' (testMsg 7 ''hi'') = ''100% of %foo%''"
    using loggerMessageFormat_sequential [THEN conjunct1, THEN mp, OF a] .
  have b: "placeholders (testMsg 7 ''hi'') =
      take 5 (placeholders (testMsg 7 ''hi'')) @ (''%level_string%'', ''Debug'') #
        drop 6 (placeholders (testMsg 7 ''hi'')) \<and>
    foldl substitute ''%level_string% %level_string%'' (take 5 (placeholders (testMsg 7 ''hi''))) =
      [] @ ''%level_string%'' @ '' %level_string%'' \<and>
    \<not> Contains ([] @ butlast ''%level_string%'') ''%level_string%'' \<and>
    (\<forall>p \<in> set (drop 6 (placeholders (testMsg 7 ''hi''))).
       \<not> Contains ([] @ ''Debug'' @ '' %level_string%'') (fst p))"
    by (simp add: placeholders_def LevelString_testMsg substitute_def HasPrefix_def)
  have 2: "loggerMessageFormat ''%level_string% %level_string%'' (testMsg 7 ''hi'') = ''Debug %level_string%''"
    using loggerMessageFormat_sequential [THEN conjunct2, THEN conjunct1, THEN mp, OF b] by simp
  have c: "foldl substitute ''%level_string% %body%'' (butlast (placeholders (testMsg 7 ''hi''))) =
      ''Debug '' @ ''%body%'' @ [] \<and> \<not> Contains (''Debug '' @ ''%body'') ''%body%''"
    by (simp add: placeholders_def LevelString_testMsg substitute_def HasPrefix_def)
  have 3: "loggerMessageFormat ''%level_string% %body%'' (testMsg 7 ''hi'') = ''Debug hi''"
    using loggerMessageFormat_sequential [THEN conjunct2, THEN conjunct2, THEN mp, OF c]
    by (simp add: testMsg_def)
  have d: "foldl substitute ''%level_string% %body% %body%''
        (butlast (placeholders (testMsg 7 ''say %body% twice''))) =
      ''Debug '' @ ''%body%'' @ '' %body%'' \<and> \<not> Contains (''Debug '' @ ''%body'') ''%body%''"
    by (simp add: placeholders_def LevelString_testMsg substitute_def HasPrefix_def)
  have 4: "loggerMessageFormat ''%level_string% %body% %body%'' (testMsg 7 ''say %body% twice'') =
     ''Debug say %body% twice %body%''"
    using loggerMessageFormat_sequential [THEN conjunct2, THEN conjunct2, THEN mp, OF d]
    by (simp add: testMsg_def)
  from 1 2 3 4 show ?thesis by blast
qed

subsection \<open>Flush in asynchronous mode\<close>

lemma flushCalls_append: "flushCalls (xs @ ys) = flushCalls xs @ flushCalls ys"
  by (induction xs rule: flushCalls.induct) auto

lemma flushCalls_writeToOutputs: "flushCalls (fst (writeToOutputs outs m)) = []"
  unfolding writeToOutputs_effects
  by (induction outs) (auto simp: flushCalls_append writeEffects_def writeFailed_def split: option.splits)

lemma sig_writeToOutputs: "map sig (snd (writeToOutputs outs m)) = map sig outs"
  unfolding writeToOutputs_outputs by (induction outs) (auto simp: sig_def written_def)

lemma dispatchCalls_sig:
  "dispatchCalls (map sig outs) m =
     map (\<lambda>output. (Name output, m)) (filter (\<lambda>output. admits output m) outs)"
  by (induction outs) (auto simp: dispatchCalls_def sig_def admits_def)

lemma Name_sig: "map Name outs = map fst (map sig outs)"
  by (simp add: sig_def o_def)

lemma writeCalls_dispatch:
  "map sig outs = sigs \<Longrightarrow> writeCalls (fst (writeToOutputs outs m)) = dispatchCalls sigs m"
  by (auto simp: writeToOutputs_calls dispatchCalls_sig)

lemma frame_mainStep:
  assumes "frame lg0 c" "mainStep c = Some c'"
  shows "frame lg0 c'"
proof (cases "mainpc c")
  case Calls
  then show ?thesis
    using assms
    by (cases "todo c")
       (auto simp: frame_def mainStep_def Let_def case_prod_beta sig_writeToOutputs split: if_splits)
qed (use assms in \<open>auto simp: frame_def mainStep_def Let_def split: if_splits\<close>)

lemma sig_flushOutput: "sig (flushOutput output) = sig output"
  by (simp add: sig_def flushOutput_def)

lemma sig_flush_at:
  "i < length outs \<Longrightarrow> map sig (outs[i := flushOutput (outs ! i)]) = map sig outs"
  by (simp add: map_update sig_flushOutput list_update_same_conv)

lemma frame_drainStep:
  assumes "frame lg0 c" "drainStep ch c = Some c'"
  shows "frame lg0 c'"
proof (cases "drainpc c")
  case Select
  then show ?thesis
    using assms
    by (cases ch; cases "msgChan (shared c)"; cases "signalChan (shared c)")
       (auto simp: frame_def drainStep_def Let_def split: if_splits)
next
  case FlushLoop
  then show ?thesis
    using assms
    by (cases "msgChan (shared c)")
       (auto simp: frame_def drainStep_def Let_def split: if_splits)
next
  case (FlushOut i)
  then show ?thesis
    using assms
    by (auto simp: frame_def drainStep_def Let_def sig_flush_at split: if_splits)
qed (use assms in \<open>auto simp: frame_def drainStep_def Let_def case_prod_beta sig_writeToOutputs
       split: if_splits\<close>)

text \<open>
  The caller's steps are the operations of \<open>Writer\<close> and \<open>Flush\<close> in asynchronous
  mode, one at a time: where the function returns, two steps of the caller reach the
  same logger; where it is parked or exits, one step reaches that point.
\<close>

lemma Writer_is_two_steps:
  assumes "\<not> synchronous (shared c)" "mainpc c = Calls" "todo c = (e, level, msg) # rest"
    and "Writer e (shared c) level msg = Return es (err, lg')"
  shows "es = [] \<and> run [MainStep, MainStep] c = Some (c\<lparr>shared := lg', todo := rest\<rparr>)"
  using assms
  by (auto simp: Writer_def printError_def step_def mainStep_def Let_def split: if_splits)

lemma Writer_blocked_is_one_step:
  assumes "\<not> synchronous (shared c)" "mainpc c = Calls" "todo c = (e, level, msg) # rest"
    and "Writer e (shared c) level msg = Blocked b lg'"
  shows "b = SendMsg (newLoggerMessage e level msg) \<and>
     run [MainStep] c = Some (c\<lparr>shared := lg', todo := rest, mainpc := InSend (newLoggerMessage e level msg)\<rparr>)"
  using assms
  by (auto simp: Writer_def printError_def step_def mainStep_def Let_def split: if_splits)

lemma Writer_exit_is_one_step:
  assumes "mainpc c = Calls" "todo c = (e, level, msg) # rest"
    and "Writer e (shared c) level msg = Exit es"
  shows "run [MainStep] c = Some (c\<lparr>mainpc := Exited, trace := trace c @ es\<rparr>)"
  using assms
  by (auto simp: Writer_def printError_def step_def mainStep_def Let_def case_prod_beta split: if_splits)

lemma Flush_is_two_steps:
  assumes "\<not> synchronous (shared c)" "mainpc c = Calls" "todo c = []"
    and "Flush (shared c) = Return es lg'"
  shows "es = [] \<and> run [MainStep, MainStep] c = Some (c\<lparr>shared := lg', mainpc := Returned\<rparr>)"
  using assms
  by (auto simp: Flush_def step_def mainStep_def Let_def split: if_splits)

lemma Flush_blocked_is_one_step:
  assumes "\<not> synchronous (shared c)" "mainpc c = Calls" "todo c = []"
    and "Flush (shared c) = Blocked WaitZero lg'"
  shows "run [MainStep] c = Some (c\<lparr>shared := lg', mainpc := InWait\<rparr>)"
  using assms
  by (auto simp: Flush_def step_def mainStep_def Let_def split: if_splits)

text \<open>
  The drain task's steps in the loop over the outputs are those of \<open>flushOutputs\<close>,
  one binding at a time.
\<close>

lemma flushOutputs_eq:
  "flushOutputs outs = (map (\<lambda>output. FlushCall (Name output)) outs, map flushOutput outs)"
  by (induction outs) simp_all

lemma flush_loop_steps:
  assumes "mainpc c \<noteq> Exited" "drainpc c = FlushOut i" "i \<le> length (outputs (shared c))"
    and "n = length (outputs (shared c)) - i"
  shows "run (replicate n (DrainStep ch)) c =
     Some (c\<lparr>shared := (shared c)\<lparr>outputs :=
                take i (outputs (shared c)) @ map flushOutput (drop i (outputs (shared c)))\<rparr>,
             trace := trace c @ map (\<lambda>output. FlushCall (Name output)) (drop i (outputs (shared c))),
             drainpc := FlushOut (length (outputs (shared c)))\<rparr>)"
  using assms
proof (induction n arbitrary: c i)
  case 0
  then show ?case by simp
next
  case (Suc n)
  let ?outs = "outputs (shared c)"
  let ?c1 = "c\<lparr>shared := (shared c)\<lparr>outputs := ?outs[i := flushOutput (?outs ! i)]\<rparr>,
               trace := trace c @ [FlushCall (Name (?outs ! i))], drainpc := FlushOut (Suc i)\<rparr>"
  from Suc.prems have lt: "i < length ?outs" by simp
  then have s: "step (DrainStep ch) c = Some ?c1"
    using Suc.prems(1,2) by (simp add: step_def drainStep_def Let_def)
  have d: "drop i ?outs = ?outs ! i # drop (Suc i) ?outs"
    using lt by (simp add: Cons_nth_drop_Suc)
  have t: "take (Suc i) (?outs[i := flushOutput (?outs ! i)]) = take i ?outs @ [flushOutput (?outs ! i)]"
    using lt by (simp add: take_Suc_conv_app_nth)
  have "run (replicate n (DrainStep ch)) ?c1 =
     Some (?c1\<lparr>shared := (shared ?c1)\<lparr>outputs :=
                take (Suc i) (outputs (shared ?c1)) @ map flushOutput (drop (Suc i) (outputs (shared ?c1)))\<rparr>,
             trace := trace ?c1 @ map (\<lambda>output. FlushCall (Name output)) (drop (Suc i) (outputs (shared ?c1))),
             drainpc := FlushOut (length (outputs (shared ?c1)))\<rparr>)"
    using Suc.prems lt by (intro Suc.IH) simp_all
  then show ?case
    using s t d by simp
qed

lemma flush_is_steps:
  assumes "mainpc c \<noteq> Exited" "drainpc c = FlushOut 0"
  shows "run (replicate (Suc (length (outputs (shared c)))) (DrainStep ch)) c =
     Some (c\<lparr>shared := (shared c)\<lparr>outputs := snd (flushOutputs (outputs (shared c)))\<rparr>,
             trace := trace c @ fst (flushOutputs (outputs (shared c))),
             drainpc := Select\<rparr>)"
proof -
  let ?n = "length (outputs (shared c))"
  let ?c1 = "c\<lparr>shared := (shared c)\<lparr>outputs := snd (flushOutputs (outputs (shared c)))\<rparr>,
               trace := trace c @ fst (flushOutputs (outputs (shared c))),
               drainpc := FlushOut ?n\<rparr>"
  have a: "run (replicate ?n (DrainStep ch)) c = Some ?c1"
    using flush_loop_steps [OF assms, of ?n ch] by (simp add: flushOutputs_eq)
  have b: "step (DrainStep ch) ?c1 = Some (?c1\<lparr>drainpc := Select\<rparr>)"
    using assms(1) by (simp add: step_def drainStep_def Let_def flushOutputs_eq)
  have r: "run (xs @ [x]) d = (case run xs d of None \<Rightarrow> None | Some d' \<Rightarrow> step x d')"
    for xs x and d :: "('a, 'b) config"
    by (induction xs arbitrary: d) (auto split: option.splits)
  have "replicate (Suc ?n) (DrainStep ch) = replicate ?n (DrainStep ch) @ [DrainStep ch]"
    by (simp add: replicate_append_same)
  then show ?thesis
    using a b by (simp only: r option.simps) simp
qed

lemma mainStep_cases:
  assumes "mainStep c = Some c'"
  obtains
    (illegal) e level msg rest where "mainpc c = Calls" "todo c = (e, level, msg) # rest"
      "levelStringMapping level = []" "mainpc c' = Exited"
  | (add) e level msg rest where "mainpc c = Calls" "todo c = (e, level, msg) # rest"
      "levelStringMapping level \<noteq> []" "\<not> synchronous (shared c)"
      "c' = c\<lparr>shared := (shared c)\<lparr>wait := wait (shared c) + 1\<rparr>, todo := rest,
               mainpc := InSend (newLoggerMessage e level msg)\<rparr>"
  | (direct) "mainpc c = Calls" "synchronous (shared c)"
  | (signal) "mainpc c = Calls" "todo c = []" "\<not> synchronous (shared c)" "signalChan (shared c) = []"
      "c' = c\<lparr>shared := (shared c)\<lparr>signalChan := [''flush'']\<rparr>, mainpc := InWait\<rparr>"
  | (send) m where "mainpc c = InSend m" "length (msgChan (shared c)) < msgChanCap (shared c)"
      "c' = c\<lparr>shared := (shared c)\<lparr>msgChan := msgChan (shared c) @ [m]\<rparr>, mainpc := Calls\<rparr>"
  | (handoff) m where "mainpc c = InSend m" "msgChanCap (shared c) = 0" "drainpc c = Select"
      "c' = c\<lparr>mainpc := Calls, drainpc := GotMsg m\<rparr>"
  | (waited) "mainpc c = InWait" "wait (shared c) = 0" "c' = c\<lparr>mainpc := Returned\<rparr>"
proof (cases "mainpc c")
  case Calls
  show ?thesis
  proof (cases "todo c")
    case Nil
    with Calls assms show ?thesis
      by (cases "synchronous (shared c)")
         (auto simp: mainStep_def Let_def intro: direct signal split: if_splits)
  next
    case (Cons call rest)
    obtain e level msg where "call = (e, level, msg)" by (cases call) auto
    with Cons Calls assms show ?thesis
      by (cases "synchronous (shared c)"; cases "levelStringMapping level = []")
         (auto simp: mainStep_def Let_def case_prod_beta intro: illegal add direct)
  qed
next
  case (InSend m)
  with assms show ?thesis
    by (auto simp: mainStep_def Let_def intro: send handoff split: if_splits)
next
  case InWait
  with assms show ?thesis
    by (auto simp: mainStep_def Let_def intro: waited split: if_splits)
qed (use assms in \<open>auto simp: mainStep_def Let_def\<close>)

lemma drainStep_cases:
  assumes "drainStep ch c = Some c'"
  obtains
    (recv) m q where "drainpc c = Select" "msgChan (shared c) = m # q"
      "c' = c\<lparr>shared := (shared c)\<lparr>msgChan := q\<rparr>, drainpc := GotMsg m\<rparr>"
  | (sig) s ss where "drainpc c = Select" "signalChan (shared c) = s # ss"
      "c' = c\<lparr>shared := (shared c)\<lparr>signalChan := ss\<rparr>,
               drainpc := (if s = ''flush'' then FlushLoop else Select)\<rparr>"
  | (dispatched) m where "drainpc c = GotMsg m"
      "c' = c\<lparr>shared := (shared c)\<lparr>outputs := snd (writeToOutputs (outputs (shared c)) m)\<rparr>,
               trace := trace c @ fst (writeToOutputs (outputs (shared c)) m), drainpc := Wrote\<rparr>"
  | (counted) "drainpc c = Wrote" "1 \<le> wait (shared c)"
      "c' = c\<lparr>shared := (shared c)\<lparr>wait := wait (shared c) - 1\<rparr>, drainpc := Select\<rparr>"
  | (negative) "drainpc c = Wrote \<or> drainpc c = FlushWrote" "wait (shared c) < 1"
  | (frecv) m q where "drainpc c = FlushLoop" "\<not> synchronous (shared c)" "msgChan (shared c) = m # q"
      "c' = c\<lparr>shared := (shared c)\<lparr>msgChan := q\<rparr>, drainpc := FlushGot m\<rparr>"
  | (drained) "drainpc c = FlushLoop" "\<not> synchronous (shared c)" "msgChan (shared c) = []"
      "c' = c\<lparr>drainpc := FlushOut 0\<rparr>"
  | (skipped) "drainpc c = FlushLoop" "synchronous (shared c)"
  | (fwrite) m where "drainpc c = FlushGot m"
      "c' = c\<lparr>shared := (shared c)\<lparr>outputs := snd (writeToOutputs (outputs (shared c)) m)\<rparr>,
               trace := trace c @ fst (writeToOutputs (outputs (shared c)) m), drainpc := FlushWrote\<rparr>"
  | (fcounted) "drainpc c = FlushWrote" "1 \<le> wait (shared c)"
      "c' = c\<lparr>shared := (shared c)\<lparr>wait := wait (shared c) - 1\<rparr>, drainpc := FlushLoop\<rparr>"
  | (flushed) i where "drainpc c = FlushOut i" "i < length (outputs (shared c))"
      "c' = c\<lparr>shared := (shared c)\<lparr>outputs :=
                 (outputs (shared c))[i := flushOutput (outputs (shared c) ! i)]\<rparr>,
               trace := trace c @ [FlushCall (Name (outputs (shared c) ! i))],
               drainpc := FlushOut (Suc i)\<rparr>"
  | (left) i where "drainpc c = FlushOut i" "length (outputs (shared c)) \<le> i"
      "c' = c\<lparr>drainpc := Select\<rparr>"
proof (cases "drainpc c")
  case Select
  with assms show ?thesis
    by (cases ch; cases "msgChan (shared c)"; cases "signalChan (shared c)")
       (auto simp: drainStep_def Let_def intro: recv sig split: if_splits)
next
  case (GotMsg m)
  with assms show ?thesis
    by (auto simp: drainStep_def Let_def case_prod_beta intro: dispatched split: if_splits)
next
  case Wrote
  with assms show ?thesis
    by (cases "wait (shared c) < 1")
       (auto simp: drainStep_def Let_def intro: counted negative split: if_splits)
next
  case FlushLoop
  with assms show ?thesis
    by (cases "synchronous (shared c)"; cases "msgChan (shared c)")
       (auto simp: drainStep_def Let_def intro: frecv drained skipped split: if_splits)
next
  case (FlushGot m)
  with assms show ?thesis
    by (auto simp: drainStep_def Let_def case_prod_beta intro: fwrite split: if_splits)
next
  case FlushWrote
  with assms show ?thesis
    by (cases "wait (shared c) < 1")
       (auto simp: drainStep_def Let_def intro: fcounted negative split: if_splits)
next
  case (FlushOut i)
  with assms show ?thesis
    by (cases "i < length (outputs (shared c))")
       (auto simp: drainStep_def Let_def intro: flushed left split: if_splits)
next
  case Crashed
  with assms show ?thesis
    by (auto simp: drainStep_def Let_def split: if_splits)
qed

lemma flushPhase_mainStep:
  assumes "frame lg0 c" "flushPhase lg0 c" "mainStep c = Some c'"
  shows "mainpc c' = Exited \<or> flushPhase lg0 c'"
  using assms(3)
proof (cases rule: mainStep_cases)
  case direct
  with assms(1) show ?thesis by (simp add: frame_def)
next
  case (handoff m)
  with assms(2) show ?thesis by (auto simp: flushPhase_def split: if_splits)
qed (use assms(2) in \<open>auto simp: flushPhase_def split: if_splits option.splits\<close>)

lemma never_negative:
  assumes "counted lg0 calls c" "drainpc c = Wrote \<or> drainpc c = FlushWrote"
  shows "1 \<le> wait (shared c)"
  using assms by (auto simp: counted_def)

lemma flushPhase_drainStep:
  assumes "frame lg0 c" "flushPhase lg0 c" "drainStep ch c = Some c'" "counted lg0 calls c"
  shows "flushPhase lg0 c'"
proof -
  have n: "map Name (outputs (shared c)) = map Name (outputs lg0)"
    using assms(1) by (simp add: frame_def Name_sig)
  then have len: "length (outputs (shared c)) = length (outputs lg0)"
    by (rule map_eq_imp_length_eq)
  from assms(3) show ?thesis
  proof (cases rule: drainStep_cases)
    case skipped
    with assms(1) show ?thesis by (simp add: frame_def)
  next
    case negative
    with never_negative [OF assms(4)] show ?thesis by simp
  next
    case (flushed i)
    have "Name (outputs (shared c) ! i) = map Name (outputs lg0) ! i"
      using flushed(2) n by (metis nth_map)
    with flushed assms(2) len show ?thesis
      by (auto simp: flushPhase_def flushCalls_append take_Suc_conv_app_nth)
  next
    case (left i)
    with assms(2) len show ?thesis
      by (auto simp: flushPhase_def)
  qed (use assms(2) in \<open>auto simp: flushPhase_def flushCalls_append flushCalls_writeToOutputs
         split: if_splits option.splits\<close>)
qed

lemma counted_mainStep:
  assumes "frame lg0 c" "counted lg0 calls c" "mainStep c = Some c'"
  shows "mainpc c' = Exited \<or> counted lg0 calls c'"
  using assms(3)
proof (cases rule: mainStep_cases)
  case direct
  with assms(1) show ?thesis by (simp add: frame_def)
next
  case (add e level msg rest)
  with assms(2) show ?thesis by (auto simp: counted_def callMsg_def)
next
  case (handoff m)
  with assms(2) show ?thesis by (auto simp: counted_def)
qed (use assms(2) in \<open>auto simp: counted_def\<close>)

lemma counted_drainStep:
  assumes "frame lg0 c" "counted lg0 calls c" "drainStep ch c = Some c'"
  shows "counted lg0 calls c'"
proof -
  have s: "map sig (outputs (shared c)) = map sig (outputs lg0)"
    using assms(1) by (simp add: frame_def)
  from assms(2) obtain written where
    w: "map callMsg calls =
          written @ held (drainpc c) @ msgChan (shared c) @ inhand (mainpc c) @ map callMsg (todo c)"
       "writeCalls (trace c) = concat (map (dispatchCalls (map sig (outputs lg0))) written)"
    by (auto simp: counted_def)
  have after_write:
    "\<exists>ws. map callMsg calls = ws @ msgChan (shared c) @ inhand (mainpc c) @ map callMsg (todo c) \<and>
       writeCalls (trace c @ fst (writeToOutputs (outputs (shared c)) m)) =
         concat (map (dispatchCalls (map sig (outputs lg0))) ws)"
    if "held (drainpc c) = [m]" for m
    using w that
    by (intro exI [of _ "written @ [m]"]) (simp add: writeCalls_append writeCalls_dispatch [OF s])
  from assms(3) show ?thesis
  proof (cases rule: drainStep_cases)
    case skipped
    with assms(1) show ?thesis by (simp add: frame_def)
  next
    case negative
    with never_negative [OF assms(2)] show ?thesis by simp
  next
    case (dispatched m)
    with assms(2) after_write [of m] show ?thesis by (auto simp: counted_def)
  next
    case (fwrite m)
    with assms(2) after_write [of m] show ?thesis by (auto simp: counted_def)
  next
    case (flushed i)
    with assms(2) show ?thesis by (auto simp: counted_def writeCalls_append)
  qed (use assms(2) in \<open>auto simp: counted_def\<close>)
qed

lemma good_step:
  assumes "good lg0 calls c" "step a c = Some c'"
  shows "mainpc c' = Exited \<or> good lg0 calls c'"
proof (cases a)
  case MainStep
  with assms(2) have m: "mainStep c = Some c'" by (simp add: step_def)
  show ?thesis
    using assms(1) frame_mainStep [OF _ m] counted_mainStep [OF _ _ m] flushPhase_mainStep [OF _ _ m]
    unfolding good_def by blast
next
  case (DrainStep ch)
  with assms(2) have d: "drainStep ch c = Some c'" by (simp add: step_def)
  show ?thesis
    using assms(1) frame_drainStep [OF _ d] counted_drainStep [OF _ _ d] flushPhase_drainStep [OF _ _ d]
    unfolding good_def by blast
qed

lemma exited_stuck: "mainpc c = Exited \<Longrightarrow> step a c = None"
  by (cases a) (simp_all add: step_def mainStep_def drainStep_def)

lemma exited_run: "mainpc c = Exited \<Longrightarrow> run sched c = Some c' \<Longrightarrow> mainpc c' = Exited"
  by (cases sched) (simp_all add: exited_stuck)

lemma good_run:
  "good lg0 calls c \<Longrightarrow> run sched c = Some c' \<Longrightarrow> mainpc c' = Exited \<or> good lg0 calls c'"
proof (induction sched arbitrary: c)
  case Nil
  then show ?case by simp
next
  case (Cons a sched)
  from Cons.prems(2) obtain c1 where s: "step a c = Some c1" and r: "run sched c1 = Some c'"
    by (auto split: option.splits)
  from good_step [OF Cons.prems(1) s] show ?case
  proof
    assume "mainpc c1 = Exited"
    then show ?thesis using r by (simp add: exited_run)
  next
    assume "good lg0 calls c1"
    then show ?thesis using r by (rule Cons.IH)
  qed
qed

lemma good_start:
  assumes "\<not> synchronous lg" "msgChan lg = []" "signalChan lg = []" "wait lg = 0"
  shows "good lg calls (start lg calls)"
  using assms by (simp add: good_def frame_def counted_def flushPhase_def start_def)

lemma undone_nonneg: "0 \<le> undone pc"
  by (cases pc) auto

lemma undone_zero: "undone pc = 0 \<Longrightarrow> held pc = []"
  by (cases pc) auto

text \<open>\<open>SetAsync\<close> leaves the logger as the runs below start from.\<close>

lemma SetAsync_start:
  "SetAsync maxChanLen logger data = Return es lg \<Longrightarrow>
   es = [] \<and> \<not> synchronous lg \<and> msgChan lg = [] \<and> signalChan lg = [] \<and>
   wait lg = wait logger \<and> outputs lg = outputs logger"
  by (auto simp: SetAsync_def Let_def split: if_splits)

text \<open>
  C3 (as the code has it). In asynchronous mode, after the calls of \<open>Writer\<close> and one
  call of \<open>Flush\<close>, under every schedule: when \<open>Flush\<close> has returned, the counter is
  zero, the channel is empty, and the calls of \<open>Write\<close> made are exactly those of the
  messages of all the calls, in the order of the calls, each to every binding that
  admits it. The bindings' \<open>Flush\<close> is not waited for: the bindings flushed so far are
  the first ones in the order of the outputs, each flushed once; they may be none, some
  or all of them.
\<close>

theorem async_flush_waits_for_dispatch:
  assumes "\<not> synchronous lg" "msgChan lg = []" "signalChan lg = []" "wait lg = 0"
    and "run sched (start lg calls) = Some c"
    and "mainpc c = Returned"
  shows "wait (shared c) = 0 \<and> msgChan (shared c) = [] \<and>
     writeCalls (trace c) =
       concat (map (\<lambda>call. map (\<lambda>output. (Name output, callMsg call))
                     (filter (\<lambda>output. Level_out output \<ge> Level (callMsg call)) (outputs lg))) calls) \<and>
     (\<exists>k. k \<le> length (outputs lg) \<and> flushCalls (trace c) = take k (map Name (outputs lg)))"
proof -
  have "good lg calls c"
    using good_run [OF good_start [OF assms(1-4)] assms(5)] assms(6) by simp
  then have cnt: "counted lg calls c" and ph: "flushPhase lg c"
    by (simp_all add: good_def)
  from cnt assms(6) have w0: "wait (shared c) = 0" and t: "todo c = []"
    by (simp_all add: counted_def)
  from cnt w0 assms(6) have "undone (drainpc c) + int (length (msgChan (shared c))) = 0"
    by (simp add: counted_def)
  with undone_nonneg [of "drainpc c"]
  have u: "undone (drainpc c) = 0" and "length (msgChan (shared c)) = 0"
    by linarith+
  then have q: "msgChan (shared c) = []" by simp
  note h = undone_zero [OF u]
  from cnt obtain written where
    "map callMsg calls =
       written @ held (drainpc c) @ msgChan (shared c) @ inhand (mainpc c) @ map callMsg (todo c)"
    and wc: "writeCalls (trace c) = concat (map (dispatchCalls (map sig (outputs lg))) written)"
    by (auto simp: counted_def)
  then have "written = map callMsg calls"
    using h q t assms(6) by simp
  with wc have calls: "writeCalls (trace c) =
       concat (map (\<lambda>call. map (\<lambda>output. (Name output, callMsg call))
                     (filter (\<lambda>output. Level_out output \<ge> Level (callMsg call)) (outputs lg))) calls)"
    by (simp add: dispatchCalls_sig admits_def o_def)
  have fl: "\<exists>k. k \<le> length (outputs lg) \<and> flushCalls (trace c) = take k (map Name (outputs lg))"
  proof (cases "flushing (drainpc c)")
    case (Some k)
    with ph show ?thesis by (auto simp: flushPhase_def)
  next
    case None
    with ph assms(6) have "flushCalls (trace c) = [] \<or> flushCalls (trace c) = map Name (outputs lg)"
      by (auto simp: flushPhase_def)
    then show ?thesis
    proof
      assume "flushCalls (trace c) = []"
      then show ?thesis by (intro exI [of _ 0]) simp
    next
      assume "flushCalls (trace c) = map Name (outputs lg)"
      then show ?thesis by (intro exI [of _ "length (outputs lg)"]) simp
    qed
  qed
  from w0 q calls fl show ?thesis by blast
qed

lemmas run_defs = step_def mainStep_def drainStep_def start_def asyncLogger_def twoCalls_def
  testLogger_def binding_def countingAdapter_def levelStringMapping_def LoggerLevel_consts
  flushOutput_def

text \<open>
  Both messages are written before \<open>Flush\<close> is called; \<open>Flush\<close> sends the signal, finds
  the counter at zero and returns, and no binding has been flushed.
\<close>

theorem async_flush_counterexample:
  "map_option (\<lambda>c. (mainpc c, wait (shared c), flushCalls (trace c), map Name (outputs (shared c))))
     (run returnedFirst (start asyncLogger twoCalls)) =
   Some (Returned, 0, [], [''console'', ''file''])"
  by (simp add: returnedFirst_def run_defs)

text \<open>
  The drain task takes the signal first and writes both messages inside \<open>flush\<close>. In
  the first run \<open>Flush\<close> returns when one of the two bindings has been flushed, in the
  second when both have.
\<close>

theorem async_flush_waits_for_dispatch_witness:
  "(\<exists>c. run flushedHalf (start asyncLogger twoCalls) = Some c \<and> mainpc c = Returned \<and>
     wait (shared c) = 0 \<and> msgChan (shared c) = [] \<and>
     writeCalls (trace c) =
       [(''console'', callMsg (testEnv, 3, ''disk full'')), (''file'', callMsg (testEnv, 3, ''disk full'')),
        (''console'', callMsg (testEnv, 6, ''started''))] \<and>
     flushCalls (trace c) = [''console'']) \<and>
   (\<exists>c. run flushedFirst (start asyncLogger twoCalls) = Some c \<and> mainpc c = Returned \<and>
     wait (shared c) = 0 \<and> msgChan (shared c) = [] \<and>
     writeCalls (trace c) =
       [(''console'', callMsg (testEnv, 3, ''disk full'')), (''file'', callMsg (testEnv, 3, ''disk full'')),
        (''console'', callMsg (testEnv, 6, ''started''))] \<and>
     flushCalls (trace c) = [''console'', ''file''])"
proof -
  have pre: "\<not> synchronous asyncLogger" "msgChan asyncLogger = []" "signalChan asyncLogger = []"
    "wait asyncLogger = 0"
    by (simp_all add: asyncLogger_def testLogger_def)
  have dispatched: "wait (shared c) = 0 \<and> msgChan (shared c) = [] \<and>
     writeCalls (trace c) =
       [(''console'', callMsg (testEnv, 3, ''disk full'')), (''file'', callMsg (testEnv, 3, ''disk full'')),
        (''console'', callMsg (testEnv, 6, ''started''))]"
    if "run sched (start asyncLogger twoCalls) = Some c" "mainpc c = Returned" for sched c
    using async_flush_waits_for_dispatch [OF pre that]
    by (simp add: asyncLogger_def testLogger_def binding_def twoCalls_def callMsg_def)
  obtain c where r: "run flushedHalf (start asyncLogger twoCalls) = Some c"
    and m: "mainpc c = Returned" and f: "flushCalls (trace c) = [''console'']"
    by (simp add: flushedHalf_def intoFlush_def run_defs)
  obtain c' where r': "run flushedFirst (start asyncLogger twoCalls) = Some c'"
    and m': "mainpc c' = Returned" and f': "flushCalls (trace c') = [''console'', ''file'']"
    by (simp add: flushedFirst_def intoFlush_def run_defs)
  from dispatched [OF r m] r m f dispatched [OF r' m'] r' m' f' show ?thesis by blast
qed

end
